theory Spec2Isabelle
  imports Main "HOL-Library.AList"
begin

section \<open>Python strings\<close>

text \<open>
  A Python \<open>str\<close> is a sequence of Unicode code points, and every index, length and
  column of the source counts code points. A string is therefore a list of code points
  (natural numbers); \<open>ustr\<close> embeds an ASCII literal.
\<close>

type_synonym pystr = "nat list"

definition ustr :: "string \<Rightarrow> pystr" where
  "ustr s = map of_char s"

text \<open>
  \<open>str.isspace\<close>, \<open>str.strip\<close> and the regular expression class \<open>\s\<close> share one
  table of white space (the interpreter's \<open>Py_UNICODE_ISSPACE\<close>).
\<close>

definition isspace :: "nat \<Rightarrow> bool" where
  "isspace c \<longleftrightarrow>
     (9 \<le> c \<and> c \<le> 13) \<or> (28 \<le> c \<and> c \<le> 32) \<or> c = 133 \<or> c = 160 \<or> c = 5760 \<or>
     (8192 \<le> c \<and> c \<le> 8202) \<or> c = 8232 \<or> c = 8233 \<or> c = 8239 \<or> c = 8287 \<or> c = 12288"

text \<open>
  The class \<open>\w\<close> of a \<open>str\<close> pattern is \<open>Py_UNICODE_ISALNUM(c) or c == '_'\<close>. The
  interpreter's table of alphanumeric code points is not part of the repository: it is the
  parameter \<open>alnum\<close> of every function that runs such a pattern. \<open>ascii_alnum\<close> is that
  table cut down to ASCII, for evaluating at ASCII-only word characters.
\<close>

definition is_word :: "(nat \<Rightarrow> bool) \<Rightarrow> nat \<Rightarrow> bool" where
  "is_word alnum c \<longleftrightarrow> alnum c \<or> c = 95"

definition ascii_alnum :: "nat \<Rightarrow> bool" where
  "ascii_alnum c \<longleftrightarrow> (48 \<le> c \<and> c \<le> 57) \<or> (65 \<le> c \<and> c \<le> 90) \<or> (97 \<le> c \<and> c \<le> 122)"

definition lstrip :: "pystr \<Rightarrow> pystr" where
  "lstrip s = dropWhile isspace s"

definition rstrip :: "pystr \<Rightarrow> pystr" where
  "rstrip s = rev (dropWhile isspace (rev s))"

definition strip :: "pystr \<Rightarrow> pystr" where
  "strip s = rstrip (lstrip s)"

definition startswith :: "pystr \<Rightarrow> pystr \<Rightarrow> bool" where
  "startswith s p \<longleftrightarrow> take (length p) s = p"

text \<open>The index of the first occurrence of \<open>sub\<close> in \<open>s\<close>, if there is one.\<close>

fun find_sub :: "pystr \<Rightarrow> pystr \<Rightarrow> nat option" where
  "find_sub [] sub = (if sub = [] then Some 0 else None)"
| "find_sub (c # cs) sub =
     (if startswith (c # cs) sub then Some 0
      else map_option Suc (find_sub cs sub))"

text \<open>\<open>s.find(sub)\<close>: the index, or \<open>-1\<close>.\<close>

definition py_find :: "pystr \<Rightarrow> pystr \<Rightarrow> int" where
  "py_find s sub = (case find_sub s sub of None \<Rightarrow> - 1 | Some k \<Rightarrow> int k)"

text \<open>\<open>sub in s\<close>.\<close>

definition contains :: "pystr \<Rightarrow> pystr \<Rightarrow> bool" where
  "contains s sub \<longleftrightarrow> find_sub s sub \<noteq> None"

text \<open>\<open>s[:k]\<close> for any integer \<open>k\<close>: a negative bound counts from the end.\<close>

definition slice_to :: "pystr \<Rightarrow> int \<Rightarrow> pystr" where
  "slice_to s k = (if k < 0 then take (nat (int (length s) + k)) s else take (nat k) s)"

text \<open>\<open>s.split('\n')\<close>: never empty; \<open>'\n'.join(lines)\<close> is its inverse.\<close>

fun split_lines :: "pystr \<Rightarrow> pystr list" where
  "split_lines [] = [[]]"
| "split_lines (c # cs) =
     (if c = 10 then [] # split_lines cs
      else (case split_lines cs of [] \<Rightarrow> [[c]] | l # ls \<Rightarrow> (c # l) # ls))"

fun join_lines :: "pystr list \<Rightarrow> pystr" where
  "join_lines [] = []"
| "join_lines [l] = l"
| "join_lines (l # ls) = l @ 10 # join_lines ls"

text \<open>
  \<open>s.replace(old, new)\<close>: every occurrence of \<open>old\<close>, left to right, without overlap.
  With an empty \<open>old\<close> Python puts \<open>new\<close> before every character and at the end.
\<close>

function py_replace :: "pystr \<Rightarrow> pystr \<Rightarrow> pystr \<Rightarrow> pystr" where
  "py_replace old new s =
     (if old = [] then new @ concat (map (\<lambda>c. c # new) s)
      else if s = [] then []
      else if startswith s old then new @ py_replace old new (drop (length old) s)
      else hd s # py_replace old new (tl s))"
  by pat_completeness auto
termination
  by (relation "measure (\<lambda>(old, new, s). length s)") auto

text \<open>\<open>str(n)\<close> for a non-negative integer.\<close>

fun str_nat :: "nat \<Rightarrow> pystr" where
  "str_nat n = (if n < 10 then [48 + n] else str_nat (n div 10) @ [48 + n mod 10])"

declare py_replace.simps [simp del]

section \<open>The data model\<close>

text \<open>
  \<open>Position\<close>, \<open>LeanMessage\<close>, \<open>ProofGoal\<close> and \<open>EditableClause\<close> of
  \<open>interactive_agent.py\<close>. Severities and clause types are strings, as in the source.
  The fields \<open>start_pos\<close> and \<open>end_pos\<close> of a message are \<open>msg_start_pos\<close> and
  \<open>msg_end_pos\<close> here, since a clause has fields of the same names.
\<close>

datatype position = Position (line: nat) (column: int)

record lean_message =
  severity :: pystr
  message :: pystr
  msg_start_pos :: position
  msg_end_pos :: position

record proof_goal =
  goal_text :: pystr
  goal_position :: position
  proof_state_id :: "int option"

record editable_clause =
  clause_id :: pystr
  start_pos :: position
  end_pos :: position
  content :: pystr
  clause_type :: pystr

text \<open>
  What \<open>prover.run_command\<close> returns. The class is not among the sources; the agent
  reads its attributes \<open>response\<close> (a string, or a false value), \<open>has_sorry\<close> and
  \<open>proof_state\<close>, and nothing else.
\<close>

record lean_result =
  response :: "pystr option"
  has_sorry :: bool
  proof_state :: "int option"

text \<open>
  The dictionary \<open>editable_clauses\<close> keeps its keys in insertion order, and storing
  under a key that is present keeps the key's place: \<open>AList.update\<close> on an association
  list.
\<close>

type_synonym clause_map = "(pystr \<times> editable_clause) list"

section \<open>Parsing the verifier's response\<close>

text \<open>
  The patterns of \<open>_parse_messages\<close> are \<open>\[tag\]\s*(.*?)(?=\n\n|\n\[|$)\<close> with
  \<open>re.DOTALL\<close>. \<open>re.search\<close> matches at the first occurrence of the tag: the greedy
  \<open>\s*\<close> takes all the white space that follows, and the lazy group grows by one character
  until the look-ahead holds, which it does at the end of the string at the latest
  (\<open>$\<close> also holds before a final line feed). \<open>block_end\<close> is the look-ahead.
\<close>

definition block_end :: "pystr \<Rightarrow> bool" where
  "block_end r \<longleftrightarrow> r = [] \<or> r = [10] \<or> startswith r [10, 10] \<or> startswith r [10, 91]"

fun lazy_block :: "pystr \<Rightarrow> pystr" where
  "lazy_block [] = []"
| "lazy_block (c # cs) = (if block_end (c # cs) then [] else c # lazy_block cs)"

definition search_block :: "pystr \<Rightarrow> pystr \<Rightarrow> pystr option" where
  "search_block tag resp =
     (case find_sub resp tag of
        None \<Rightarrow> None
      | Some k \<Rightarrow> Some (lazy_block (dropWhile isspace (drop (k + length tag) resp))))"

definition mk_message :: "pystr \<Rightarrow> pystr \<Rightarrow> lean_message" where
  "mk_message sev txt =
     \<lparr>severity = sev, message = txt, msg_start_pos = Position 0 0, msg_end_pos = Position 0 0\<rparr>"

text \<open>One \<open>if '[tag]' in response:\<close> block of \<open>_parse_messages\<close>.\<close>

definition tagged_messages :: "pystr \<Rightarrow> pystr \<Rightarrow> lean_message list" where
  "tagged_messages sev resp =
     (let tag = ustr ''['' @ sev @ ustr '']'' in
      if contains resp tag then
        (case search_block tag resp of
           None \<Rightarrow> []
         | Some txt \<Rightarrow> [mk_message sev (strip txt)])
      else [])"

definition parse_messages :: "lean_result \<Rightarrow> lean_message list" where
  "parse_messages result =
     (let msgs =
        (case response result of
           None \<Rightarrow> []
         | Some resp \<Rightarrow>
             if resp = [] then []
             else tagged_messages (ustr ''error'') resp @
                  tagged_messages (ustr ''warning'') resp @
                  tagged_messages (ustr ''info'') resp);
          is_success =
        (case response result of
           None \<Rightarrow> False
         | Some resp \<Rightarrow> resp \<noteq> [] \<and> strip resp = ustr ''Success'')
      in if is_success then msgs @ [mk_message (ustr ''info'') (ustr ''Compilation successful'')]
         else if msgs = [] then msgs @ [mk_message (ustr ''info'') (ustr ''Compilation completed'')]
         else msgs)"

text \<open>
  \<open>_parse_goals\<close>: one goal for every line of the stored document that contains
  \<open>sorry\<close>, when the response is a non-empty string.
\<close>

definition goal_of_line :: "int option \<Rightarrow> nat \<times> pystr \<Rightarrow> proof_goal list" where
  "goal_of_line ps il =
     (case il of (i, ln) \<Rightarrow>
        if contains ln (ustr ''sorry'') then
          [\<lparr>goal_text = ustr ''Goal at sorry on line '' @ str_nat (i + 1),
            goal_position = Position i (py_find ln (ustr ''sorry'')),
            proof_state_id = ps\<rparr>]
        else [])"

definition parse_goals :: "pystr \<Rightarrow> lean_result \<Rightarrow> proof_goal list" where
  "parse_goals code result =
     (case response result of
        None \<Rightarrow> []
      | Some resp \<Rightarrow>
          if resp = [] then []
          else concat (map (goal_of_line (proof_state result)) (enumerate 0 (split_lines code))))"

section \<open>Finding the editable clauses\<close>

text \<open>
  The pattern of a \<open>have\<close> line is \<open>have\s+(\w+)\s*:.*?:=\s*by\s*(.*)\<close>, matched at the
  start of the stripped line. No word character is white space or a colon, so the greedy
  pieces up to the first colon cannot give anything back. After the colon the lazy \<open>.*?\<close>
  stops at the first \<open>:=\<close> that is followed by optional white space and \<open>by\<close>; a dot
  does not match a line feed. \<open>find_assign_by\<close> returns the second group.
\<close>

fun find_assign_by :: "pystr \<Rightarrow> pystr option" where
  "find_assign_by [] = None"
| "find_assign_by (c # cs) =
     (if startswith (c # cs) (ustr '':='') \<and>
         startswith (dropWhile isspace (drop 2 (c # cs))) (ustr ''by'')
      then Some (takeWhile (\<lambda>x. x \<noteq> 10)
             (dropWhile isspace (drop 2 (dropWhile isspace (drop 2 (c # cs))))))
      else if c = 10 then None
      else find_assign_by cs)"

definition have_match :: "(nat \<Rightarrow> bool) \<Rightarrow> pystr \<Rightarrow> (pystr \<times> pystr) option" where
  "have_match alnum s =
     (if \<not> startswith s (ustr ''have'') then None
      else
        (case drop 4 s of
           [] \<Rightarrow> None
         | c # r1 \<Rightarrow>
             if \<not> isspace c then None
             else
               (let r2 = dropWhile isspace r1;
                    var_name = takeWhile (is_word alnum) r2;
                    r3 = dropWhile isspace (dropWhile (is_word alnum) r2)
                in if var_name = [] then None
                   else
                     (case r3 of
                        [] \<Rightarrow> None
                      | d # r4 \<Rightarrow>
                          if d \<noteq> 58 then None
                          else map_option (Pair var_name) (find_assign_by r4)))))"

definition tactic_prefixes :: "pystr list" where
  "tactic_prefixes = map ustr
     [''intro '', ''exact '', ''apply '', ''rw '', ''simp'', ''trivial'',
      ''rfl'', ''constructor'', ''cases '', ''induction '', ''unfold '',
      ''left'', ''right'', ''split'', ''exfalso'', ''contradiction'']"

text \<open>
  The loop of \<open>_identify_editable_clauses\<close> carries the dictionary, the counter
  \<open>clause_id\<close> (here \<open>clause_counter\<close>) and the flag \<open>main_proof_started\<close>.
\<close>

record scan_state =
  clauses :: clause_map
  clause_counter :: nat
  main_proof_started :: bool

definition add_clause :: "pystr \<Rightarrow> position \<Rightarrow> position \<Rightarrow> pystr \<Rightarrow> pystr \<Rightarrow> scan_state \<Rightarrow> scan_state" where
  "add_clause key sp ep txt ty st =
     st\<lparr>clauses := AList.update key
            \<lparr>clause_id = key, start_pos = sp, end_pos = ep, content = txt, clause_type = ty\<rparr>
            (clauses st),
        clause_counter := clause_counter st + 1\<rparr>"

definition numbered :: "string \<Rightarrow> nat \<Rightarrow> pystr" where
  "numbered name n = ustr name @ [95] @ str_nat n"

definition clause_step :: "(nat \<Rightarrow> bool) \<Rightarrow> nat \<times> pystr \<Rightarrow> scan_state \<Rightarrow> scan_state" where
  "clause_step alnum il st =
     (case il of (i, ln) \<Rightarrow>
        let stripped = strip ln; n = clause_counter st; len = int (length ln) in
        if stripped = [] \<or> startswith stripped (ustr ''--'') then st
        else if startswith stripped (ustr ''theorem'') then
          (case find_sub stripped (ustr '':= by'') of
             None \<Rightarrow> st
           | Some k \<Rightarrow>
               let by_part = strip (drop (k + 5) stripped) in
               (if by_part \<noteq> [] then
                  add_clause (numbered ''main_proof'' n) (Position i (int k + 5)) (Position i len)
                    by_part (ustr ''main_proof'') st
                else st)\<lparr>main_proof_started := True\<rparr>)
        else if main_proof_started st then
          (if startswith stripped (ustr ''have '') then
             (case have_match alnum stripped of
                None \<Rightarrow> st
              | Some (var_name, body) \<Rightarrow>
                  let proof_content = strip body in
                  add_clause (ustr ''have_'' @ var_name)
                    (Position i (py_find ln (ustr ''by'') + 3)) (Position i len)
                    (if proof_content \<noteq> [] then proof_content else ustr ''sorry'')
                    (ustr ''have'') st)
           else if contains stripped (ustr ''sorry'') then
             (let sorry_pos = py_find ln (ustr ''sorry'') in
              add_clause (numbered ''sorry'' n) (Position i sorry_pos) (Position i (sorry_pos + 5))
                (ustr ''sorry'') (ustr ''sorry'') st)
           else if startswith stripped (ustr ''by '') then
             add_clause (numbered ''tactic_block'' n)
               (Position i (py_find ln (ustr ''by'') + 3)) (Position i len)
               (strip (drop 3 stripped)) (ustr ''tactic_block'') st
           else if list_ex (startswith stripped) tactic_prefixes then
             add_clause (numbered ''tactic'' n) (Position i 0) (Position i len)
               stripped (ustr ''tactic'') st
           else if stripped \<noteq> [] \<and> \<not> startswith stripped (ustr ''theorem'') then
             add_clause (numbered ''proof_line'' n) (Position i 0) (Position i len)
               stripped (ustr ''proof_line'') st
           else st)
        else st)"

fun scan_lines :: "(nat \<Rightarrow> bool) \<Rightarrow> (nat \<times> pystr) list \<Rightarrow> scan_state \<Rightarrow> scan_state" where
  "scan_lines alnum [] st = st"
| "scan_lines alnum (il # rest) st = scan_lines alnum rest (clause_step alnum il st)"

definition identify_editable_clauses :: "(nat \<Rightarrow> bool) \<Rightarrow> pystr \<Rightarrow> clause_map" where
  "identify_editable_clauses alnum code =
     clauses (scan_lines alnum (enumerate 0 (split_lines code))
        \<lparr>clauses = [], clause_counter = 0, main_proof_started = False\<rparr>)"

section \<open>The session\<close>

text \<open>
  The thread-local state of \<open>_get_agent_state\<close>, with the agent's \<open>_instance_id\<close>. The
  prover object is not a field: the verifier is outside the program, and every operation
  that compiles takes the function \<open>run_command\<close> that answers this one call.
\<close>

record agent_state =
  current_code :: pystr
  current_messages :: "lean_message list"
  current_goals :: "proof_goal list"
  editable_clauses :: clause_map
  compilation_id :: nat
  thread_id :: nat
  session_id :: pystr
  instance_id :: pystr

definition init_state :: "nat \<Rightarrow> pystr \<Rightarrow> pystr \<Rightarrow> agent_state" where
  "init_state tid sid iid =
     \<lparr>current_code = [], current_messages = [], current_goals = [], editable_clauses = [],
      compilation_id = 0, thread_id = tid, session_id = sid, instance_id = iid\<rparr>"

record thread_info =
  info_thread_id :: nat
  info_session_id :: pystr
  info_instance_id :: pystr

definition thread_info_of :: "agent_state \<Rightarrow> thread_info" where
  "thread_info_of st =
     \<lparr>info_thread_id = thread_id st, info_session_id = session_id st,
      info_instance_id = instance_id st\<rparr>"

text \<open>
  The dictionary returned by \<open>_compile_and_analyze\<close>; the keys \<open>has_sorry\<close>,
  \<open>editable_clauses\<close>, \<open>proof_state\<close> and \<open>compilation_id\<close> carry the prefix
  \<open>result_\<close>. \<open>load_theorem\<close> adds the key \<open>thread_info\<close>.
\<close>

record compile_result =
  success :: bool
  has_errors :: bool
  has_warnings :: bool
  result_has_sorry :: bool
  messages :: "lean_message list"
  goals :: "proof_goal list"
  result_editable_clauses :: "pystr list"
  result_proof_state :: "int option"
  result_compilation_id :: nat
  raw_response :: "pystr option"

record load_result = compile_result +
  load_thread_info :: thread_info

text \<open>
  \<open>_make_thread_unique_code\<close> is \<open>re.sub(r'theorem\s+(\w+)', ...)\<close>: at every match, from
  left to right, the white space becomes one blank and the name gets the suffix
  \<open>_t{thread_id % 10000}_s{session_id}\<close>.
\<close>

function sub_theorem_names :: "(nat \<Rightarrow> bool) \<Rightarrow> pystr \<Rightarrow> pystr \<Rightarrow> pystr" where
  "sub_theorem_names alnum suffix s =
     (if s = [] then []
      else
        (let r1 = drop 7 s; r2 = dropWhile isspace r1; original_name = takeWhile (is_word alnum) r2
         in if startswith s (ustr ''theorem'') \<and> r1 \<noteq> [] \<and> isspace (hd r1) \<and> original_name \<noteq> []
            then ustr ''theorem '' @ original_name @ suffix @
                 sub_theorem_names alnum suffix (dropWhile (is_word alnum) r2)
            else hd s # sub_theorem_names alnum suffix (tl s)))"
  by pat_completeness auto
termination
proof (relation "measure (\<lambda>(alnum, suffix, s). length s)", goal_cases)
  case 1
  show ?case by simp
next
  case (2 alnum suffix s r1 r2 original_name)
  have "length (dropWhile (is_word alnum) r2) \<le> length r2"
    by (rule length_dropWhile_le)
  also have "length r2 \<le> length r1"
    unfolding 2(3) by (rule length_dropWhile_le)
  also have "length r1 < length s"
    using 2(1,5) unfolding 2(2) by (cases s) (auto simp: startswith_def ustr_def)
  finally show ?case by simp
next
  case (3 alnum suffix s r1 r2 original_name)
  then show ?case by (cases s) auto
qed

declare sub_theorem_names.simps [simp del]

definition make_thread_unique_code :: "(nat \<Rightarrow> bool) \<Rightarrow> pystr \<Rightarrow> nat \<Rightarrow> pystr \<Rightarrow> pystr" where
  "make_thread_unique_code alnum code tid sid =
     sub_theorem_names alnum (ustr ''_t'' @ str_nat (tid mod 10000) @ ustr ''_s'' @ sid) code"

definition has_severity :: "pystr \<Rightarrow> lean_message list \<Rightarrow> bool" where
  "has_severity sev msgs \<longleftrightarrow> list_ex (\<lambda>msg. severity msg = sev) msgs"

text \<open>
  \<open>_compile_and_analyze\<close>: the counter goes up, the verifier runs, and messages, goals
  and clauses are derived again, the last two from the stored document.
\<close>

definition compile_and_analyze ::
  "(nat \<Rightarrow> bool) \<Rightarrow> (pystr \<Rightarrow> lean_result) \<Rightarrow> agent_state \<Rightarrow> pystr \<Rightarrow> compile_result \<times> agent_state" where
  "compile_and_analyze alnum run_command st unique_code =
     (let result = run_command unique_code;
          st' = st\<lparr>compilation_id := compilation_id st + 1,
                  current_messages := parse_messages result,
                  current_goals := parse_goals (current_code st) result,
                  editable_clauses := identify_editable_clauses alnum (current_code st)\<rparr>;
          errs = has_severity (ustr ''error'') (current_messages st')
      in (\<lparr>success = \<not> errs,
           has_errors = errs,
           has_warnings = has_severity (ustr ''warning'') (current_messages st'),
           result_has_sorry = has_sorry result,
           messages = current_messages st',
           goals = current_goals st',
           result_editable_clauses = map fst (editable_clauses st'),
           result_proof_state = proof_state result,
           result_compilation_id = compilation_id st',
           raw_response = response result\<rparr>, st'))"

definition load_theorem ::
  "(nat \<Rightarrow> bool) \<Rightarrow> (pystr \<Rightarrow> lean_result) \<Rightarrow> agent_state \<Rightarrow> pystr \<Rightarrow> load_result \<times> agent_state" where
  "load_theorem alnum run_command st theorem_code =
     (let st1 = st\<lparr>current_code := theorem_code\<rparr>;
          modified_code = make_thread_unique_code alnum theorem_code (thread_id st1) (session_id st1);
          (result, st2) = compile_and_analyze alnum run_command st1 modified_code
      in (compile_result.extend result (load_result.fields (thread_info_of st2)), st2))"

section \<open>Editing\<close>

text \<open>
  The new line of \<open>edit_clause\<close>, by clause type. A \<open>find\<close> that returns \<open>-1\<close> is the
  case \<open>None\<close>.
\<close>

definition edit_line :: "editable_clause \<Rightarrow> pystr \<Rightarrow> pystr \<Rightarrow> pystr" where
  "edit_line clause new_text ln =
     (if clause_type clause = ustr ''sorry'' then py_replace (ustr ''sorry'') new_text ln
      else if clause_type clause = ustr ''have'' then
        (case find_sub ln (ustr ''by'') of
           Some by_pos \<Rightarrow> take (by_pos + 2) ln @ ustr '' '' @ new_text
         | None \<Rightarrow> ln)
      else if clause_type clause = ustr ''main_proof'' then
        (case find_sub ln (ustr '':= by'') of
           Some by_pos \<Rightarrow> take (by_pos + 5) ln @ ustr '' '' @ new_text
         | None \<Rightarrow> ln)
      else if clause_type clause = ustr ''tactic_block'' then
        (case find_sub ln (ustr ''by'') of
           Some by_pos \<Rightarrow> take (by_pos + 2) ln @ ustr '' '' @ new_text
         | None \<Rightarrow> ln)
      else if clause_type clause \<in> set [ustr ''tactic'', ustr ''proof_line''] then
        replicate (length ln - length (lstrip ln)) 32 @ new_text
      else slice_to ln (column (start_pos clause)) @ new_text)"

record edit_ok =
  edited_clause_id :: pystr
  edited_clause_type :: pystr
  old_content :: pystr
  new_content :: pystr
  compilation_result :: compile_result
  updated_code :: pystr
  edit_successful :: bool
  edit_thread_info :: thread_info

text \<open>
  \<open>edit_clause\<close> returns a dictionary with the key \<open>error\<close> (\<open>EditError\<close>) or the
  dictionary of an applied edit (\<open>EditDone\<close>). \<open>lines[line_idx]\<close> raises \<open>IndexError\<close>
  when the clause's line is not a line of the document; nothing has been assigned then.
\<close>

datatype edit_result = EditError pystr thread_info | EditDone edit_ok

datatype py_exception = IndexError

definition edit_clause ::
  "(nat \<Rightarrow> bool) \<Rightarrow> (pystr \<Rightarrow> lean_result) \<Rightarrow> agent_state \<Rightarrow> pystr \<Rightarrow> pystr
     \<Rightarrow> (py_exception + edit_result) \<times> agent_state" where
  "edit_clause alnum run_command st cid new_text =
     (case map_of (editable_clauses st) cid of
        None \<Rightarrow>
          (Inr (EditError (ustr ''Clause '' @ [39] @ cid @ [39] @ ustr '' not found'')
                  (thread_info_of st)), st)
      | Some clause \<Rightarrow>
          let lines = split_lines (current_code st);
              line_idx = line (start_pos clause)
          in if \<not> line_idx < length lines then (Inl IndexError, st)
             else
               (let new_line = edit_line clause new_text (lines ! line_idx);
                    st1 = st\<lparr>current_code := join_lines (lines[line_idx := new_line])\<rparr>;
                    modified_code = make_thread_unique_code alnum (current_code st1)
                                      (thread_id st1) (session_id st1);
                    (compile_result, st2) = compile_and_analyze alnum run_command st1 modified_code
                in (Inr (EditDone
                      \<lparr>edited_clause_id = cid,
                       edited_clause_type = clause_type clause,
                       old_content = content clause,
                       new_content = new_text,
                       compilation_result = compile_result,
                       updated_code = current_code st2,
                       edit_successful = True,
                       edit_thread_info = thread_info_of st2\<rparr>), st2)))"

text \<open>\<open>add_proof_structure\<close>: the loop body that builds \<open>indented_lines\<close>, then the edit.\<close>

definition indent_line :: "pystr \<Rightarrow> pystr list" where
  "indent_line ln =
     (if strip ln \<noteq> [] then
        (if \<not> startswith ln (ustr ''  '') then [ustr ''  '' @ strip ln] else [rstrip ln])
      else [])"

definition add_proof_structure ::
  "(nat \<Rightarrow> bool) \<Rightarrow> (pystr \<Rightarrow> lean_result) \<Rightarrow> agent_state \<Rightarrow> pystr list
     \<Rightarrow> (py_exception + edit_result) \<times> agent_state" where
  "add_proof_structure alnum run_command st structure_lines =
     (let new_structure = join_lines (concat (map indent_line structure_lines));
          main_proof_clauses =
            filter (\<lambda>cid. startswith cid (ustr ''main_proof_'') \<or> startswith cid (ustr ''sorry_''))
              (map fst (editable_clauses st))
      in case main_proof_clauses of
           [] \<Rightarrow>
             (Inr (EditError (ustr ''No main proof clause found to add structure to'')
                     (thread_info_of st)), st)
         | cid # _ \<Rightarrow> edit_clause alnum run_command st cid new_structure)"

section \<open>The panel\<close>

record panel =
  panel_current_code :: pystr
  panel_messages :: "pystr list"
  panel_goals :: "pystr list"
  panel_editable_clauses :: "(pystr \<times> pystr) list"
  panel_compilation_id :: nat
  panel_thread_info :: thread_info

definition str_message :: "lean_message \<Rightarrow> pystr" where
  "str_message msg =
     ustr ''['' @ severity msg @ ustr ''] '' @ message msg @ ustr '' at line '' @
     str_nat (line (msg_start_pos msg) + 1)"

definition str_goal :: "proof_goal \<Rightarrow> pystr" where
  "str_goal goal =
     ustr ''Goal at line '' @ str_nat (line (goal_position goal) + 1) @ ustr '': '' @
     take 100 (goal_text goal) @ ustr ''...''"

text \<open>
  \<open>get_interactive_panel\<close> assigns to no attribute of the state; the state it leaves
  behind is returned next to the panel.
\<close>

definition get_interactive_panel :: "agent_state \<Rightarrow> panel \<times> agent_state" where
  "get_interactive_panel st =
     (\<lparr>panel_current_code = current_code st,
       panel_messages = map str_message (current_messages st),
       panel_goals = map str_goal (current_goals st),
       panel_editable_clauses =
         map (\<lambda>(cid, clause). (cid, clause_type clause @ ustr '': '' @ content clause))
           (editable_clauses st),
       panel_compilation_id = compilation_id st,
       panel_thread_info = thread_info_of st\<rparr>, st)"

section \<open>Reachable sessions and sample inputs\<close>

text \<open>
  The states a session can be in: the state that \<open>_get_agent_state\<close> creates, and every
  state that an operation leaves behind, whatever the verifier answers.
\<close>

inductive reachable :: "(nat \<Rightarrow> bool) \<Rightarrow> agent_state \<Rightarrow> bool" for alnum :: "nat \<Rightarrow> bool" where
  fresh: "reachable alnum (init_state tid sid iid)"
| loaded: "reachable alnum st \<Longrightarrow> reachable alnum (snd (load_theorem alnum run_command st code))"
| edited: "reachable alnum st \<Longrightarrow> reachable alnum (snd (edit_clause alnum run_command st cid new_text))"
| structured:
    "reachable alnum st \<Longrightarrow> reachable alnum (snd (add_proof_structure alnum run_command st ls))"
| viewed: "reachable alnum st \<Longrightarrow> reachable alnum (snd (get_interactive_panel st))"

text \<open>Verifiers for the examples: one that accepts, one that reports an error.\<close>

definition run_ok :: "pystr \<Rightarrow> lean_result" where
  "run_ok code = \<lparr>response = Some (ustr ''Success''), has_sorry = False, proof_state = None\<rparr>"

definition run_error :: "pystr \<Rightarrow> lean_result" where
  "run_error code =
     \<lparr>response = Some (ustr ''[error] unsolved goals''), has_sorry = False, proof_state = None\<rparr>"

definition doc_true :: pystr where
  "doc_true = ustr ''theorem t : True := by sorry''"

definition state0 :: agent_state where
  "state0 = init_state 7 (ustr ''ab12cd34'') (ustr ''ef56ab78'')"

definition edited_code :: "agent_state \<Rightarrow> editable_clause \<Rightarrow> pystr \<Rightarrow> pystr" where
  "edited_code st clause new_text =
     join_lines ((split_lines (current_code st))
       [line (start_pos clause) :=
          edit_line clause new_text (split_lines (current_code st) ! line (start_pos clause))])"


definition doc_and_comm :: pystr where
  "doc_and_comm = ustr ''theorem t (A B : Prop) : A '' @ [8743] @ ustr '' B '' @ [8594] @
     ustr '' B '' @ [8743] @ ustr '' A := by sorry''"

definition proof_and_comm :: pystr where
  "proof_and_comm = ustr ''intro h; exact '' @ [10216] @ ustr ''h.right, h.left'' @ [10217]"

definition doc_and_comm_done :: pystr where
  "doc_and_comm_done = ustr ''theorem t (A B : Prop) : A '' @ [8743] @ ustr '' B '' @ [8594] @
     ustr '' B '' @ [8743] @ ustr '' A := by '' @ proof_and_comm"

definition clause_fits :: "nat \<Rightarrow> pystr \<Rightarrow> pystr \<Rightarrow> editable_clause \<Rightarrow> bool" where
  "clause_fits i ln key c \<longleftrightarrow>
     clause_id c = key \<and> line (start_pos c) = i \<and> line (end_pos c) = i \<and>
     ((clause_type c = ustr ''main_proof'' \<and> (\<exists>n. key = numbered ''main_proof'' n)) \<or>
      (clause_type c = ustr ''have'' \<and> (\<exists>v. key = ustr ''have_'' @ v)) \<or>
      (clause_type c = ustr ''sorry'' \<and> (\<exists>n. key = numbered ''sorry'' n) \<and>
         content c = ustr ''sorry'' \<and> contains (strip ln) (ustr ''sorry'')) \<or>
      (clause_type c = ustr ''tactic_block'' \<and> (\<exists>n. key = numbered ''tactic_block'' n)) \<or>
      (clause_type c = ustr ''tactic'' \<and> (\<exists>n. key = numbered ''tactic'' n) \<and> content c = strip ln) \<or>
      (clause_type c = ustr ''proof_line'' \<and> (\<exists>n. key = numbered ''proof_line'' n) \<and>
         content c = strip ln))"

text \<open>The test on a clause id, with the prefixes written as the specification has them.\<close>

definition is_target :: "pystr \<Rightarrow> bool" where
  "is_target cid \<longleftrightarrow> startswith cid (ustr ''main_proof'') \<or> startswith cid (ustr ''sorry'')"

definition structure_lines0 :: "pystr list" where
  "structure_lines0 = [ustr ''intro h'', ustr ''   '', ustr ''  exact h '']"

definition clause_and_comm :: editable_clause where
  "clause_and_comm =
     \<lparr>clause_id = ustr ''main_proof_0'', start_pos = Position 0 44, end_pos = Position 0 50,
      content = ustr ''sorry'', clause_type = ustr ''main_proof''\<rparr>"

definition clause_and_comm_done :: editable_clause where
  "clause_and_comm_done =
     \<lparr>clause_id = ustr ''main_proof_0'', start_pos = Position 0 44, end_pos = Position 0 77,
      content = proof_and_comm, clause_type = ustr ''main_proof''\<rparr>"

definition doc_trailing :: pystr where
  "doc_trailing = ustr ''theorem t : True := by'' @ [10] @ ustr ''  trivial ''"

definition doc_have_open :: pystr where
  "doc_have_open = ustr ''theorem t : True := by'' @ [10] @ ustr ''  have h : True := by'' @ [10] @
     ustr ''    trivial'' @ [10] @ ustr ''  exact h''"

definition doc_two_sorries :: pystr where
  "doc_two_sorries = ustr ''theorem t (p : P) (q : Q) : And P Q := by'' @ [10] @
     ustr ''  exact And.intro sorry sorry''"


definition doc_have_closed :: pystr where
  "doc_have_closed = ustr ''theorem t : True := by'' @ [10] @
     ustr ''  have h : True := by trivial'' @ [10] @ ustr ''  exact h''"

definition doc_block :: pystr where
  "doc_block = ustr ''theorem t : True := by'' @ [10] @ ustr ''  have h : True :='' @ [10] @
     ustr ''    by trivial'' @ [10] @ ustr ''  exact h''"

definition doc_main_wide :: pystr where
  "doc_main_wide = ustr ''theorem t : True := by  trivial''"

definition doc_block_wide :: pystr where
  "doc_block_wide = ustr ''theorem t : True := by'' @ [10] @ ustr ''  have h : True :='' @ [10] @
     ustr ''    by  trivial'' @ [10] @ ustr ''  exact h''"

section \<open>Strings\<close>

lemma split_lines_nonempty: "split_lines s \<noteq> []"
  by (induction s) (auto split: list.splits)

lemma join_lines_Cons_Cons: "join_lines ((c # l) # ls) = c # join_lines (l # ls)"
  by (cases ls) auto

lemma join_lines_Nil_Cons: "ls \<noteq> [] \<Longrightarrow> join_lines ([] # ls) = 10 # join_lines ls"
  by (cases ls) auto

lemma join_split_lines: "join_lines (split_lines s) = s"
proof (induction s)
  case Nil
  show ?case by simp
next
  case (Cons c cs)
  show ?case
  proof (cases "c = 10")
    case True
    then show ?thesis
      using Cons split_lines_nonempty [of cs] by (simp add: join_lines_Nil_Cons)
  next
    case False
    obtain l ls where eq: "split_lines cs = l # ls"
      using split_lines_nonempty [of cs] by (cases "split_lines cs") auto
    with False Cons show ?thesis
      by (simp add: join_lines_Cons_Cons)
  qed
qed

section \<open>What compiling does to the state\<close>

lemma compile_state:
  "snd (compile_and_analyze alnum run_command st code) =
     st\<lparr>compilation_id := compilation_id st + 1,
        current_messages := parse_messages (run_command code),
        current_goals := parse_goals (current_code st) (run_command code),
        editable_clauses := identify_editable_clauses alnum (current_code st)\<rparr>"
  by (simp add: compile_and_analyze_def Let_def)

lemma compile_result_fields:
  "success (fst (compile_and_analyze alnum run_command st code)) \<longleftrightarrow>
     \<not> has_severity (ustr ''error'') (parse_messages (run_command code))"
  "messages (fst (compile_and_analyze alnum run_command st code)) = parse_messages (run_command code)"
  "raw_response (fst (compile_and_analyze alnum run_command st code)) = response (run_command code)"
  by (simp_all add: compile_and_analyze_def Let_def)

lemma load_state:
  "snd (load_theorem alnum run_command st code) =
     snd (compile_and_analyze alnum run_command (st\<lparr>current_code := code\<rparr>)
            (make_thread_unique_code alnum code (thread_id st) (session_id st)))"
  by (simp add: load_theorem_def Let_def split_beta)

lemma load_result_fields:
  "success (fst (load_theorem alnum run_command st code)) =
     success (fst (compile_and_analyze alnum run_command (st\<lparr>current_code := code\<rparr>)
            (make_thread_unique_code alnum code (thread_id st) (session_id st))))"
  "messages (fst (load_theorem alnum run_command st code)) =
     messages (fst (compile_and_analyze alnum run_command (st\<lparr>current_code := code\<rparr>)
            (make_thread_unique_code alnum code (thread_id st) (session_id st))))"
  "raw_response (fst (load_theorem alnum run_command st code)) =
     raw_response (fst (compile_and_analyze alnum run_command (st\<lparr>current_code := code\<rparr>)
            (make_thread_unique_code alnum code (thread_id st) (session_id st))))"
  by (simp_all add: load_theorem_def Let_def split_beta compile_result.defs load_result.defs)

lemma load_state_fields:
  "current_code (snd (load_theorem alnum run_command st code)) = code"
  "editable_clauses (snd (load_theorem alnum run_command st code)) =
     identify_editable_clauses alnum code"
  "compilation_id (snd (load_theorem alnum run_command st code)) = compilation_id st + 1"
  by (simp_all add: load_state compile_state)

lemma clauses_doc_true:
  "identify_editable_clauses alnum doc_true =
     [(ustr ''main_proof_0'',
       \<lparr>clause_id = ustr ''main_proof_0'', start_pos = Position 0 22, end_pos = Position 0 28,
        content = ustr ''sorry'', clause_type = ustr ''main_proof''\<rparr>)]"
  by (simp add: identify_editable_clauses_def doc_true_def ustr_def clause_step_def strip_def
      lstrip_def rstrip_def isspace_def startswith_def add_clause_def numbered_def Let_def
      enumerate_eq_zip)

lemmas scan_defs = identify_editable_clauses_def clause_step_def strip_def lstrip_def rstrip_def
  isspace_def startswith_def add_clause_def numbered_def Let_def enumerate_eq_zip contains_def
  py_find_def tactic_prefixes_def

lemma edit_clause_known:
  assumes "map_of (editable_clauses st) cid = Some clause"
      and "line (start_pos clause) < length (split_lines (current_code st))"
  shows "edit_clause alnum run_command st cid new_text =
     (let st1 = st\<lparr>current_code := edited_code st clause new_text\<rparr>;
          cr = compile_and_analyze alnum run_command st1
                 (make_thread_unique_code alnum (edited_code st clause new_text)
                    (thread_id st) (session_id st))
      in (Inr (EditDone
            \<lparr>edited_clause_id = cid, edited_clause_type = clause_type clause,
             old_content = content clause, new_content = new_text,
             compilation_result = fst cr, updated_code = edited_code st clause new_text,
             edit_successful = True, edit_thread_info = thread_info_of st\<rparr>), snd cr))"
  using assms
  by (simp add: edit_clause_def edited_code_def Let_def split_beta compile_state thread_info_of_def)

lemma edit_clause_done:
  assumes "edit_clause alnum run_command st cid new_text = (Inr (EditDone e), st')"
  shows "\<exists>st1 code. compilation_result e = fst (compile_and_analyze alnum run_command st1 code) \<and>
           st' = snd (compile_and_analyze alnum run_command st1 code)"
proof -
  from assms obtain clause where
    c: "map_of (editable_clauses st) cid = Some clause" and
    v: "line (start_pos clause) < length (split_lines (current_code st))"
    by (auto simp: edit_clause_def Let_def split: option.splits if_splits)
  let ?st1 = "st\<lparr>current_code := edited_code st clause new_text\<rparr>"
  let ?code = "make_thread_unique_code alnum (edited_code st clause new_text)
                    (thread_id st) (session_id st)"
  from assms have "compilation_result e = fst (compile_and_analyze alnum run_command ?st1 ?code)"
    and "st' = snd (compile_and_analyze alnum run_command ?st1 ?code)"
    unfolding edit_clause_known [OF c v] Let_def by auto
  then show ?thesis by blast
qed

lemma has_severity_iff:
  "has_severity sev msgs \<longleftrightarrow> (\<exists>m \<in> set msgs. severity m = sev)"
  by (simp add: has_severity_def list_ex_iff)

lemma messages_run_ok:
  "parse_messages (run_ok code) = [mk_message (ustr ''info'') (ustr ''Compilation successful'')]"
  by (simp add: parse_messages_def run_ok_def tagged_messages_def scan_defs ustr_def)

lemma messages_run_error:
  "parse_messages (run_error code) = [mk_message (ustr ''error'') (ustr ''unsolved goals'')]"
  by (simp add: parse_messages_def run_error_def tagged_messages_def scan_defs ustr_def
      search_block_def block_end_def)


lemma add_clause_fields:
  "clauses (add_clause key sp ep txt ty st) =
     AList.update key \<lparr>clause_id = key, start_pos = sp, end_pos = ep, content = txt, clause_type = ty\<rparr> (clauses st)"
  "clause_counter (add_clause key sp ep txt ty st) = clause_counter st + 1"
  "main_proof_started (add_clause key sp ep txt ty st) = main_proof_started st"
  by (simp_all add: add_clause_def)

lemma step_skip:
  "strip ln = [] \<or> startswith (strip ln) (ustr ''--'') \<Longrightarrow> clause_step alnum (i, ln) st = st"
  by (simp add: clause_step_def)

lemma step_theorem:
  assumes "strip ln \<noteq> []" "\<not> startswith (strip ln) (ustr ''--'')"
    "startswith (strip ln) (ustr ''theorem'')"
  shows "clauses (clause_step alnum (i, ln) st) =
     (case find_sub (strip ln) (ustr '':= by'') of
        None \<Rightarrow> clauses st
      | Some k \<Rightarrow>
          if strip (drop (k + 5) (strip ln)) \<noteq> [] then
            AList.update (numbered ''main_proof'' (clause_counter st))
              \<lparr>clause_id = numbered ''main_proof'' (clause_counter st),
               start_pos = Position i (int k + 5), end_pos = Position i (int (length ln)),
               content = strip (drop (k + 5) (strip ln)), clause_type = ustr ''main_proof''\<rparr>
              (clauses st)
          else clauses st)"
  using assms by (simp add: clause_step_def Let_def add_clause_def split: option.split)

lemma step_idle:
  assumes "strip ln \<noteq> []" "\<not> startswith (strip ln) (ustr ''--'')"
    "\<not> startswith (strip ln) (ustr ''theorem'')" "\<not> main_proof_started st"
  shows "clause_step alnum (i, ln) st = st"
  using assms by (simp add: clause_step_def Let_def)

lemma step_have:
  assumes "strip ln \<noteq> []" "\<not> startswith (strip ln) (ustr ''--'')"
    "\<not> startswith (strip ln) (ustr ''theorem'')" "main_proof_started st"
    "startswith (strip ln) (ustr ''have '')"
  shows "clause_step alnum (i, ln) st =
     (case have_match alnum (strip ln) of
        None \<Rightarrow> st
      | Some (var_name, body) \<Rightarrow>
          add_clause (ustr ''have_'' @ var_name)
            (Position i (py_find ln (ustr ''by'') + 3)) (Position i (int (length ln)))
            (if strip body \<noteq> [] then strip body else ustr ''sorry'') (ustr ''have'') st)"
  using assms by (simp add: clause_step_def Let_def split: option.split prod.split)

lemma step_sorry:
  assumes "strip ln \<noteq> []" "\<not> startswith (strip ln) (ustr ''--'')"
    "\<not> startswith (strip ln) (ustr ''theorem'')" "main_proof_started st"
    "\<not> startswith (strip ln) (ustr ''have '')" "contains (strip ln) (ustr ''sorry'')"
  shows "clause_step alnum (i, ln) st =
     add_clause (numbered ''sorry'' (clause_counter st)) (Position i (py_find ln (ustr ''sorry'')))
       (Position i (py_find ln (ustr ''sorry'') + 5)) (ustr ''sorry'') (ustr ''sorry'') st"
  using assms by (simp add: clause_step_def Let_def)

lemma step_tactic_block:
  assumes "strip ln \<noteq> []" "\<not> startswith (strip ln) (ustr ''--'')"
    "\<not> startswith (strip ln) (ustr ''theorem'')" "main_proof_started st"
    "\<not> startswith (strip ln) (ustr ''have '')" "\<not> contains (strip ln) (ustr ''sorry'')"
    "startswith (strip ln) (ustr ''by '')"
  shows "clause_step alnum (i, ln) st =
     add_clause (numbered ''tactic_block'' (clause_counter st))
       (Position i (py_find ln (ustr ''by'') + 3)) (Position i (int (length ln)))
       (strip (drop 3 (strip ln))) (ustr ''tactic_block'') st"
  using assms by (simp add: clause_step_def Let_def)

lemma step_tactic:
  assumes "strip ln \<noteq> []" "\<not> startswith (strip ln) (ustr ''--'')"
    "\<not> startswith (strip ln) (ustr ''theorem'')" "main_proof_started st"
    "\<not> startswith (strip ln) (ustr ''have '')" "\<not> contains (strip ln) (ustr ''sorry'')"
    "\<not> startswith (strip ln) (ustr ''by '')" "list_ex (startswith (strip ln)) tactic_prefixes"
  shows "clause_step alnum (i, ln) st =
     add_clause (numbered ''tactic'' (clause_counter st)) (Position i 0)
       (Position i (int (length ln))) (strip ln) (ustr ''tactic'') st"
  using assms by (simp add: clause_step_def Let_def)

lemma step_proof_line:
  assumes "strip ln \<noteq> []" "\<not> startswith (strip ln) (ustr ''--'')"
    "\<not> startswith (strip ln) (ustr ''theorem'')" "main_proof_started st"
    "\<not> startswith (strip ln) (ustr ''have '')" "\<not> contains (strip ln) (ustr ''sorry'')"
    "\<not> startswith (strip ln) (ustr ''by '')" "\<not> list_ex (startswith (strip ln)) tactic_prefixes"
  shows "clause_step alnum (i, ln) st =
     add_clause (numbered ''proof_line'' (clause_counter st)) (Position i 0)
       (Position i (int (length ln))) (strip ln) (ustr ''proof_line'') st"
  using assms by (simp add: clause_step_def Let_def)

lemma fits_update:
  assumes "clause_fits i ln key c" "map_of (AList.update key c al) k = Some c'"
  shows "map_of al k = Some c' \<or> clause_fits i ln k c'"
  using assms by (auto simp: update_conv' split: if_splits)

lemma clause_step_map_of:
  assumes m: "map_of (clauses (clause_step alnum (i, ln) st)) k = Some c"
  shows "map_of (clauses st) k = Some c \<or> clause_fits i ln k c"
proof -
  let ?s = "strip ln"
  consider
      (skip) "?s = [] \<or> startswith ?s (ustr ''--'')"
    | (decl) "?s \<noteq> []" "\<not> startswith ?s (ustr ''--'')" "startswith ?s (ustr ''theorem'')"
    | (idle) "?s \<noteq> []" "\<not> startswith ?s (ustr ''--'')" "\<not> startswith ?s (ustr ''theorem'')"
        "\<not> main_proof_started st"
    | (have_line) "?s \<noteq> []" "\<not> startswith ?s (ustr ''--'')" "\<not> startswith ?s (ustr ''theorem'')"
        "main_proof_started st" "startswith ?s (ustr ''have '')"
    | (sorry_line) "?s \<noteq> []" "\<not> startswith ?s (ustr ''--'')"
        "\<not> startswith ?s (ustr ''theorem'')" "main_proof_started st"
        "\<not> startswith ?s (ustr ''have '')" "contains ?s (ustr ''sorry'')"
    | (block) "?s \<noteq> []" "\<not> startswith ?s (ustr ''--'')" "\<not> startswith ?s (ustr ''theorem'')"
        "main_proof_started st" "\<not> startswith ?s (ustr ''have '')"
        "\<not> contains ?s (ustr ''sorry'')" "startswith ?s (ustr ''by '')"
    | (tac_line) "?s \<noteq> []" "\<not> startswith ?s (ustr ''--'')" "\<not> startswith ?s (ustr ''theorem'')"
        "main_proof_started st" "\<not> startswith ?s (ustr ''have '')"
        "\<not> contains ?s (ustr ''sorry'')" "\<not> startswith ?s (ustr ''by '')"
        "list_ex (startswith ?s) tactic_prefixes"
    | (other) "?s \<noteq> []" "\<not> startswith ?s (ustr ''--'')" "\<not> startswith ?s (ustr ''theorem'')"
        "main_proof_started st" "\<not> startswith ?s (ustr ''have '')"
        "\<not> contains ?s (ustr ''sorry'')" "\<not> startswith ?s (ustr ''by '')"
        "\<not> list_ex (startswith ?s) tactic_prefixes"
    by blast
  then show ?thesis
  proof cases
    case skip
    with m show ?thesis by (simp add: step_skip)
  next
    case decl
    show ?thesis
    proof (cases "find_sub ?s (ustr '':= by'')")
      case None
      with m decl show ?thesis by (simp add: step_theorem)
    next
      case (Some j)
      show ?thesis
      proof (cases "strip (drop (j + 5) ?s) = []")
        case True
        with m decl Some show ?thesis by (simp add: step_theorem)
      next
        case False
        let ?c = "\<lparr>clause_id = numbered ''main_proof'' (clause_counter st),
               start_pos = Position i (int j + 5), end_pos = Position i (int (length ln)),
               content = strip (drop (j + 5) ?s), clause_type = ustr ''main_proof''\<rparr>"
        have "clause_fits i ln (numbered ''main_proof'' (clause_counter st)) ?c"
          by (auto simp: clause_fits_def)
        moreover from m decl Some False
        have "map_of (AList.update (numbered ''main_proof'' (clause_counter st)) ?c (clauses st)) k
            = Some c"
          by (simp add: step_theorem)
        ultimately show ?thesis by (rule fits_update)
      qed
    qed
  next
    case idle
    with m show ?thesis by (simp add: step_idle)
  next
    case have_line
    show ?thesis
    proof (cases "have_match alnum ?s")
      case None
      with m have_line show ?thesis by (simp add: step_have)
    next
      case (Some vb)
      obtain v body where vb: "vb = (v, body)" by (cases vb)
      let ?c = "\<lparr>clause_id = ustr ''have_'' @ v,
               start_pos = Position i (py_find ln (ustr ''by'') + 3),
               end_pos = Position i (int (length ln)),
               content = (if strip body \<noteq> [] then strip body else ustr ''sorry''),
               clause_type = ustr ''have''\<rparr>"
      have "clause_fits i ln (ustr ''have_'' @ v) ?c"
        by (auto simp: clause_fits_def)
      moreover from m have_line Some vb
      have "map_of (AList.update (ustr ''have_'' @ v) ?c (clauses st)) k = Some c"
        by (simp add: step_have add_clause_fields)
      ultimately show ?thesis by (rule fits_update)
    qed
  next
    case sorry_line
    let ?c = "\<lparr>clause_id = numbered ''sorry'' (clause_counter st),
               start_pos = Position i (py_find ln (ustr ''sorry'')),
               end_pos = Position i (py_find ln (ustr ''sorry'') + 5),
               content = ustr ''sorry'', clause_type = ustr ''sorry''\<rparr>"
    have "clause_fits i ln (numbered ''sorry'' (clause_counter st)) ?c"
      using sorry_line(6) by (auto simp: clause_fits_def)
    moreover from m sorry_line
    have "map_of (AList.update (numbered ''sorry'' (clause_counter st)) ?c (clauses st)) k = Some c"
      by (simp add: step_sorry add_clause_fields)
    ultimately show ?thesis by (rule fits_update)
  next
    case block
    let ?c = "\<lparr>clause_id = numbered ''tactic_block'' (clause_counter st),
               start_pos = Position i (py_find ln (ustr ''by'') + 3),
               end_pos = Position i (int (length ln)),
               content = strip (drop 3 ?s), clause_type = ustr ''tactic_block''\<rparr>"
    have "clause_fits i ln (numbered ''tactic_block'' (clause_counter st)) ?c"
      by (auto simp: clause_fits_def)
    moreover from m block
    have "map_of (AList.update (numbered ''tactic_block'' (clause_counter st)) ?c (clauses st)) k
        = Some c"
      by (simp add: step_tactic_block add_clause_fields)
    ultimately show ?thesis by (rule fits_update)
  next
    case tac_line
    let ?c = "\<lparr>clause_id = numbered ''tactic'' (clause_counter st), start_pos = Position i 0,
               end_pos = Position i (int (length ln)),
               content = ?s, clause_type = ustr ''tactic''\<rparr>"
    have "clause_fits i ln (numbered ''tactic'' (clause_counter st)) ?c"
      by (auto simp: clause_fits_def)
    moreover from m tac_line
    have "map_of (AList.update (numbered ''tactic'' (clause_counter st)) ?c (clauses st)) k = Some c"
      by (simp add: step_tactic add_clause_fields)
    ultimately show ?thesis by (rule fits_update)
  next
    case other
    let ?c = "\<lparr>clause_id = numbered ''proof_line'' (clause_counter st), start_pos = Position i 0,
               end_pos = Position i (int (length ln)),
               content = ?s, clause_type = ustr ''proof_line''\<rparr>"
    have "clause_fits i ln (numbered ''proof_line'' (clause_counter st)) ?c"
      by (auto simp: clause_fits_def)
    moreover from m other
    have "map_of (AList.update (numbered ''proof_line'' (clause_counter st)) ?c (clauses st)) k
        = Some c"
      by (simp add: step_proof_line add_clause_fields)
    ultimately show ?thesis by (rule fits_update)
  qed
qed

lemma scan_lines_map_of:
  assumes "map_of (clauses (scan_lines alnum ils st)) k = Some c"
  shows "map_of (clauses st) k = Some c \<or> (\<exists>il \<in> set ils. clause_fits (fst il) (snd il) k c)"
  using assms
proof (induction ils arbitrary: st)
  case Nil
  then show ?case by simp
next
  case (Cons il ils)
  from Cons.prems have "map_of (clauses (scan_lines alnum ils (clause_step alnum il st))) k = Some c"
    by simp
  from Cons.IH [OF this] show ?case
  proof
    assume "map_of (clauses (clause_step alnum il st)) k = Some c"
    then have "map_of (clauses st) k = Some c \<or> clause_fits (fst il) (snd il) k c"
      using clause_step_map_of [of alnum "fst il" "snd il" st k c] by simp
    then show ?thesis by auto
  next
    assume "\<exists>il \<in> set ils. clause_fits (fst il) (snd il) k c"
    then show ?thesis by auto
  qed
qed

lemma identify_clause_fits:
  assumes "map_of (identify_editable_clauses alnum code) k = Some c"
  shows "\<exists>i < length (split_lines code). clause_fits i (split_lines code ! i) k c"
proof -
  from scan_lines_map_of [OF assms [unfolded identify_editable_clauses_def]]
  obtain il where "il \<in> set (enumerate 0 (split_lines code))" "clause_fits (fst il) (snd il) k c"
    by auto
  then show ?thesis
    by (auto simp: in_set_enumerate_eq)
qed

lemma identify_empty: "identify_editable_clauses alnum [] = []"
  by (simp add: scan_defs)

lemma edit_clause_state:
  "snd (edit_clause alnum run_command st cid new_text) = st \<or>
   (\<exists>st1 code. snd (edit_clause alnum run_command st cid new_text) =
      snd (compile_and_analyze alnum run_command st1 code))"
proof (cases "map_of (editable_clauses st) cid")
  case None
  then show ?thesis by (simp add: edit_clause_def)
next
  case (Some clause)
  show ?thesis
  proof (cases "line (start_pos clause) < length (split_lines (current_code st))")
    case True
    show ?thesis
      unfolding edit_clause_known [OF Some True] Let_def by auto
  next
    case False
    with Some show ?thesis by (simp add: edit_clause_def Let_def)
  qed
qed

lemma compile_derives_clauses:
  "editable_clauses (snd (compile_and_analyze alnum run_command st code)) =
     identify_editable_clauses alnum (current_code (snd (compile_and_analyze alnum run_command st code)))"
  by (simp add: compile_state)

lemma add_proof_structure_state:
  "snd (add_proof_structure alnum run_command st ls) = st \<or>
   (\<exists>cid new_text. snd (add_proof_structure alnum run_command st ls) =
      snd (edit_clause alnum run_command st cid new_text))"
  by (auto simp: add_proof_structure_def Let_def split: list.splits)

lemma reachable_clauses:
  assumes "reachable alnum st"
  shows "editable_clauses st = identify_editable_clauses alnum (current_code st)"
  using assms
proof (induction rule: reachable.induct)
  case (fresh tid sid iid)
  show ?case by (simp add: init_state_def identify_empty)
next
  case (loaded st run_command code)
  show ?case by (simp add: load_state_fields)
next
  case (edited st run_command cid new_text)
  from edit_clause_state [of alnum run_command st cid new_text] edited.IH
  show ?case by (auto simp: compile_derives_clauses)
next
  case (structured st run_command ls)
  from add_proof_structure_state [of alnum run_command st ls]
  show ?case
  proof
    assume "snd (add_proof_structure alnum run_command st ls) = st"
    with structured.IH show ?thesis by simp
  next
    assume "\<exists>cid new_text. snd (add_proof_structure alnum run_command st ls) =
      snd (edit_clause alnum run_command st cid new_text)"
    then obtain cid new_text where
      eq: "snd (add_proof_structure alnum run_command st ls) =
             snd (edit_clause alnum run_command st cid new_text)"
      by blast
    from edit_clause_state [of alnum run_command st cid new_text] structured.IH
    show ?thesis unfolding eq by (auto simp: compile_derives_clauses)
  qed
next
  case (viewed st)
  then show ?case by (simp add: get_interactive_panel_def)
qed

lemma reachable_clause_fits:
  assumes "reachable alnum st" "map_of (editable_clauses st) cid = Some clause"
  shows "\<exists>i < length (split_lines (current_code st)).
           clause_fits i (split_lines (current_code st) ! i) cid clause"
  using identify_clause_fits [of alnum "current_code st" cid clause] assms
  by (simp add: reachable_clauses)

lemma reachable_line_valid:
  assumes "reachable alnum st" "map_of (editable_clauses st) cid = Some clause"
  shows "line (start_pos clause) < length (split_lines (current_code st))"
  using reachable_clause_fits [OF assms] by (auto simp: clause_fits_def)

lemma reachable_loaded_doc_true:
  "reachable ascii_alnum (snd (load_theorem ascii_alnum run_ok state0 doc_true))"
  unfolding state0_def by (intro reachable.loaded reachable.fresh)

lemma find_as_filter: "find P xs = (case filter P xs of [] \<Rightarrow> None | x # _ \<Rightarrow> Some x)"
  by (induction xs) auto

lemma clause_fits_target:
  assumes "clause_fits i ln k c"
  shows "is_target k \<longleftrightarrow> startswith k (ustr ''main_proof_'') \<or> startswith k (ustr ''sorry_'')"
  using assms
  by (auto simp: clause_fits_def is_target_def numbered_def startswith_def ustr_def)

lemma reachable_key_target:
  assumes "reachable alnum st" "k \<in> set (map fst (editable_clauses st))"
  shows "is_target k \<longleftrightarrow> startswith k (ustr ''main_proof_'') \<or> startswith k (ustr ''sorry_'')"
proof -
  from assms(2) obtain c where "map_of (editable_clauses st) k = Some c"
    by (cases "map_of (editable_clauses st) k") (auto simp: map_of_eq_None_iff)
  from reachable_clause_fits [OF assms(1) this] show ?thesis
    using clause_fits_target by blast
qed

lemma reachable_targets:
  assumes "reachable alnum st"
  shows "filter (\<lambda>cid. startswith cid (ustr ''main_proof_'') \<or> startswith cid (ustr ''sorry_''))
           (map fst (editable_clauses st)) =
         filter is_target (map fst (editable_clauses st))"
  by (rule filter_cong [OF refl]) (simp add: reachable_key_target [OF assms])

lemma rstrip_append:
  assumes "\<exists>c \<in> set l. \<not> isspace c"
  shows "rstrip (p @ l) = p @ rstrip l"
proof -
  from assms obtain c where "c \<in> set (rev l)" "\<not> isspace c" by auto
  then have "dropWhile isspace (rev l @ rev p) = dropWhile isspace (rev l) @ rev p"
    by (rule dropWhile_append1)
  then show ?thesis by (simp add: rstrip_def)
qed

lemma strip_eq_Nil: "strip l = [] \<longleftrightarrow> (\<forall>c \<in> set l. isspace c)"
proof -
  let ?m = "dropWhile isspace l"
  have "strip l = [] \<longleftrightarrow> (\<forall>c \<in> set ?m. isspace c)"
    by (simp add: strip_def lstrip_def rstrip_def dropWhile_eq_Nil_conv)
  also have "\<dots> \<longleftrightarrow> ?m = []"
  proof
    assume all: "\<forall>c \<in> set ?m. isspace c"
    show "?m = []"
    proof (rule ccontr)
      assume ne: "?m \<noteq> []"
      then have "\<not> isspace (hd ?m)" by (rule hd_dropWhile)
      moreover from ne have "hd ?m \<in> set ?m" by simp
      ultimately show False using all by blast
    qed
  qed (auto dest: set_dropWhileD)
  also have "\<dots> \<longleftrightarrow> (\<forall>c \<in> set l. isspace c)"
    by (simp add: dropWhile_eq_Nil_conv)
  finally show ?thesis .
qed

lemma rstrip_has_nonspace:
  assumes "\<exists>c \<in> set l. \<not> isspace c"
  shows "\<exists>c \<in> set (rstrip l). \<not> isspace c"
proof -
  let ?d = "dropWhile isspace (rev l)"
  from assms have ne: "?d \<noteq> []" by (simp add: dropWhile_eq_Nil_conv)
  then have "\<not> isspace (hd ?d)" by (rule hd_dropWhile)
  moreover from ne have "hd ?d \<in> set ?d" by simp
  ultimately show ?thesis by (auto simp: rstrip_def)
qed

lemma indent_line_indented:
  assumes "l' \<in> set (indent_line l)"
  shows "startswith l' (ustr ''  '') \<and> strip l' \<noteq> []"
proof -
  from assms have ne: "strip l \<noteq> []"
    by (auto simp: indent_line_def split: if_splits)
  then obtain c where c: "c \<in> set l" "\<not> isspace c"
    by (auto simp: strip_eq_Nil)
  show ?thesis
  proof (cases "startswith l (ustr ''  '')")
    case False
    with assms ne have l': "l' = ustr ''  '' @ strip l"
      by (simp add: indent_line_def)
    from c have "\<exists>c \<in> set (lstrip l). \<not> isspace c"
      unfolding lstrip_def by (metis dropWhile_eq_Nil_conv hd_dropWhile hd_in_set)
    from rstrip_has_nonspace [OF this] have "\<exists>c \<in> set (strip l). \<not> isspace c"
      by (simp add: strip_def)
    then have "\<exists>c \<in> set l'. \<not> isspace c"
      by (auto simp: l')
    then show ?thesis
      by (auto simp: strip_eq_Nil) (simp add: l' startswith_def ustr_def)
  next
    case True
    with assms ne have l': "l' = rstrip l"
      by (simp add: indent_line_def)
    from True have t: "take 2 l = [32, 32]"
      by (simp add: startswith_def ustr_def numeral_2_eq_2)
    have "l = [32, 32] @ drop 2 l"
      by (metis append_take_drop_id t)
    then obtain r where r: "l = [32, 32] @ r" ..
    with c have "\<exists>c \<in> set r. \<not> isspace c"
      by (auto simp: isspace_def)
    from rstrip_append [OF this, of "[32, 32]"] rstrip_has_nonspace [OF this]
    show ?thesis
      by (auto simp: l' r strip_eq_Nil startswith_def ustr_def)
  qed
qed

lemma indented_lines:
  "concat (map indent_line ls) =
     map (\<lambda>l. if startswith l (ustr ''  '') then rstrip l else ustr ''  '' @ strip l)
       (filter (\<lambda>l. strip l \<noteq> []) ls)"
  by (induction ls) (simp_all add: indent_line_def)

lemma add_proof_structure_find:
  assumes "reachable alnum st"
  shows "add_proof_structure alnum run_command st ls =
     (case find is_target (map fst (editable_clauses st)) of
        None \<Rightarrow> (Inr (EditError (ustr ''No main proof clause found to add structure to'')
                    (thread_info_of st)), st)
      | Some cid \<Rightarrow> edit_clause alnum run_command st cid (join_lines (concat (map indent_line ls))))"
  by (simp add: add_proof_structure_def Let_def reachable_targets [OF assms] find_as_filter
      split: list.split)

lemma reachable_state0: "reachable alnum state0"
  unfolding state0_def by (rule reachable.fresh)









lemma parse_messages_nonempty: "parse_messages result \<noteq> []"
  by (simp add: parse_messages_def Let_def)


lemma clauses_doc_and_comm:
  "identify_editable_clauses alnum doc_and_comm = [(ustr ''main_proof_0'', clause_and_comm)]"
  by (simp add: scan_defs doc_and_comm_def clause_and_comm_def ustr_def)

lemma clauses_doc_and_comm_done:
  "identify_editable_clauses alnum doc_and_comm_done =
     [(ustr ''main_proof_0'', clause_and_comm_done)]"
  by (simp add: scan_defs doc_and_comm_done_def proof_and_comm_def clause_and_comm_done_def
      ustr_def)

lemma edited_doc_and_comm:
  "current_code st = doc_and_comm \<Longrightarrow>
     edited_code st clause_and_comm proof_and_comm = doc_and_comm_done"
  by (simp add: edited_code_def edit_line_def clause_and_comm_def doc_and_comm_def
      doc_and_comm_done_def proof_and_comm_def startswith_def ustr_def)

lemma main_proof_not_sorry: "ustr ''main_proof'' \<noteq> ustr ''sorry''"
  by (simp add: ustr_def)

lemma py_replace_same: "old \<noteq> [] \<Longrightarrow> py_replace old old s = s"
proof (induction s rule: length_induct)
  case (1 s)
  show ?case
  proof (cases "s = []")
    case True
    with 1(2) show ?thesis by (simp add: py_replace.simps)
  next
    case False
    show ?thesis
    proof (cases "startswith s old")
      case True
      then have eq: "old @ drop (length old) s = s"
        by (metis append_take_drop_id startswith_def)
      have "length (drop (length old) s) < length s"
        using False 1(2) by simp
      with 1 have "py_replace old old (drop (length old) s) = drop (length old) s"
        by blast
      with 1(2) False True eq show ?thesis
        by (subst py_replace.simps) simp
    next
      case nsw: False
      have "length (tl s) < length s"
        using False by simp
      with 1 have "py_replace old old (tl s) = tl s"
        by blast
      with 1(2) False nsw show ?thesis
        by (subst py_replace.simps) simp
    qed
  qed
qed

lemmas scan_eval = scan_defs have_match_def is_word_def ascii_alnum_def ustr_def

lemma clauses_doc_trailing:
  "identify_editable_clauses alnum doc_trailing =
     [(ustr ''tactic_0'',
       \<lparr>clause_id = ustr ''tactic_0'', start_pos = Position 1 0, end_pos = Position 1 10,
        content = ustr ''trivial'', clause_type = ustr ''tactic''\<rparr>)]"
  by (simp add: scan_eval doc_trailing_def)

lemma clauses_doc_have_open:
  "identify_editable_clauses ascii_alnum doc_have_open =
     [(ustr ''have_h'',
       \<lparr>clause_id = ustr ''have_h'', start_pos = Position 1 22, end_pos = Position 1 21,
        content = ustr ''sorry'', clause_type = ustr ''have''\<rparr>),
      (ustr ''tactic_1'',
       \<lparr>clause_id = ustr ''tactic_1'', start_pos = Position 2 0, end_pos = Position 2 11,
        content = ustr ''trivial'', clause_type = ustr ''tactic''\<rparr>),
      (ustr ''tactic_2'',
       \<lparr>clause_id = ustr ''tactic_2'', start_pos = Position 3 0, end_pos = Position 3 9,
        content = ustr ''exact h'', clause_type = ustr ''tactic''\<rparr>)]"
  by (simp add: scan_eval doc_have_open_def)

lemma clauses_doc_two_sorries:
  "identify_editable_clauses alnum doc_two_sorries =
     [(ustr ''sorry_0'',
       \<lparr>clause_id = ustr ''sorry_0'', start_pos = Position 1 18, end_pos = Position 1 23,
        content = ustr ''sorry'', clause_type = ustr ''sorry''\<rparr>)]"
  by (simp add: scan_eval doc_two_sorries_def)

lemma replace_two_sorries:
  "py_replace (ustr ''sorry'') (ustr ''p'') (ustr ''  exact And.intro sorry sorry'') =
     ustr ''  exact And.intro p p''"
  by (simp add: py_replace.simps startswith_def ustr_def)

lemma edit_clause_known_state:
  assumes "map_of (editable_clauses st) cid = Some clause"
      and "line (start_pos clause) < length (split_lines (current_code st))"
  shows "snd (edit_clause alnum run_command st cid new_text) =
     snd (compile_and_analyze alnum run_command (st\<lparr>current_code := edited_code st clause new_text\<rparr>)
            (make_thread_unique_code alnum (edited_code st clause new_text)
               (thread_id st) (session_id st)))"
  unfolding edit_clause_known [OF assms] Let_def by simp

lemma edit_clause_known_code:
  assumes "map_of (editable_clauses st) cid = Some clause"
      and "line (start_pos clause) < length (split_lines (current_code st))"
  shows "current_code (snd (edit_clause alnum run_command st cid new_text)) =
           edited_code st clause new_text"
  by (simp add: edit_clause_known_state [OF assms] compile_state)

lemma edited_code_same_line:
  assumes "edit_line clause new_text (split_lines (current_code st) ! line (start_pos clause)) =
             split_lines (current_code st) ! line (start_pos clause)"
  shows "edited_code st clause new_text = current_code st"
  by (simp add: edited_code_def assms join_split_lines)

lemma ustr_eq_iff: "ustr a = ustr b \<longleftrightarrow> a = b"
proof -
  have "inj (of_char :: char \<Rightarrow> nat)"
    by (rule inj_on_inverseI [of _ char_of]) simp
  then show ?thesis
    by (simp add: ustr_def inj_map_eq_map)
qed

lemma edit_line_sorry:
  "clause_type clause = ustr ''sorry'' \<Longrightarrow>
     edit_line clause new_text ln = py_replace (ustr ''sorry'') new_text ln"
  by (simp add: edit_line_def)

lemma edit_line_whole:
  "clause_type clause = ustr ''tactic'' \<or> clause_type clause = ustr ''proof_line'' \<Longrightarrow>
     edit_line clause new_text ln = replicate (length ln - length (lstrip ln)) 32 @ new_text"
  by (auto simp: edit_line_def ustr_eq_iff)

lemma clause_fits_sorry_text:
  "clause_fits i ln k c \<Longrightarrow> clause_type c = ustr ''sorry'' \<Longrightarrow> content c = ustr ''sorry''"
  by (auto simp: clause_fits_def ustr_eq_iff)

lemma clause_fits_line_text:
  "clause_fits i ln k c \<Longrightarrow>
     clause_type c = ustr ''tactic'' \<or> clause_type c = ustr ''proof_line'' \<Longrightarrow>
     content c = strip ln \<and> line (start_pos c) = i"
  by (auto simp: clause_fits_def ustr_eq_iff)

lemma reachable_loaded_state0:
  "reachable alnum (snd (load_theorem alnum run_command state0 doc))"
  by (intro reachable.loaded reachable_state0)

lemma lines_doc_have_open:
  "split_lines doc_have_open =
     [ustr ''theorem t : True := by'', ustr ''  have h : True := by'', ustr ''    trivial'',
      ustr ''  exact h'']"
  by (simp add: doc_have_open_def ustr_def)

lemma lines_doc_trailing:
  "split_lines doc_trailing = [ustr ''theorem t : True := by'', ustr ''  trivial '']"
  by (simp add: doc_trailing_def ustr_def)

lemma lines_doc_two_sorries:
  "split_lines doc_two_sorries =
     [ustr ''theorem t (p : P) (q : Q) : And P Q := by'', ustr ''  exact And.intro sorry sorry'']"
  by (simp add: doc_two_sorries_def ustr_def)

lemma unique_doc_true:
  "make_thread_unique_code ascii_alnum doc_true 7 (ustr ''ab12cd34'') =
     ustr ''theorem t_t7_sab12cd34 : True := by sorry''"
  by (simp add: make_thread_unique_code_def doc_true_def sub_theorem_names.simps startswith_def
      isspace_def is_word_def ascii_alnum_def ustr_def)




lemma edit_line_main_proof:
  "clause_type clause = ustr ''main_proof'' \<Longrightarrow>
     edit_line clause new_text ln =
       (case find_sub ln (ustr '':= by'') of
          Some k \<Rightarrow> take (k + 5) ln @ ustr '' '' @ new_text
        | None \<Rightarrow> ln)"
  by (simp add: edit_line_def ustr_eq_iff)

lemma edit_line_by:
  "clause_type clause = ustr ''have'' \<or> clause_type clause = ustr ''tactic_block'' \<Longrightarrow>
     edit_line clause new_text ln =
       (case find_sub ln (ustr ''by'') of
          Some k \<Rightarrow> take (k + 2) ln @ ustr '' '' @ new_text
        | None \<Rightarrow> ln)"
  by (auto simp: edit_line_def ustr_eq_iff)

lemma clauses_doc_have_closed:
  "identify_editable_clauses ascii_alnum doc_have_closed =
     [(ustr ''have_h'',
       \<lparr>clause_id = ustr ''have_h'', start_pos = Position 1 22, end_pos = Position 1 29,
        content = ustr ''trivial'', clause_type = ustr ''have''\<rparr>),
      (ustr ''tactic_1'',
       \<lparr>clause_id = ustr ''tactic_1'', start_pos = Position 2 0, end_pos = Position 2 9,
        content = ustr ''exact h'', clause_type = ustr ''tactic''\<rparr>)]"
  by (simp add: scan_eval doc_have_closed_def)

lemma clauses_doc_block:
  "identify_editable_clauses ascii_alnum doc_block =
     [(ustr ''tactic_block_0'',
       \<lparr>clause_id = ustr ''tactic_block_0'', start_pos = Position 2 7, end_pos = Position 2 14,
        content = ustr ''trivial'', clause_type = ustr ''tactic_block''\<rparr>),
      (ustr ''tactic_1'',
       \<lparr>clause_id = ustr ''tactic_1'', start_pos = Position 3 0, end_pos = Position 3 9,
        content = ustr ''exact h'', clause_type = ustr ''tactic''\<rparr>)]"
  by (simp add: scan_eval doc_block_def find_assign_by.simps)

lemma clauses_doc_main_wide:
  "identify_editable_clauses alnum doc_main_wide =
     [(ustr ''main_proof_0'',
       \<lparr>clause_id = ustr ''main_proof_0'', start_pos = Position 0 22, end_pos = Position 0 31,
        content = ustr ''trivial'', clause_type = ustr ''main_proof''\<rparr>)]"
  by (simp add: scan_eval doc_main_wide_def)

lemma clauses_doc_block_wide:
  "identify_editable_clauses ascii_alnum doc_block_wide =
     [(ustr ''tactic_block_0'',
       \<lparr>clause_id = ustr ''tactic_block_0'', start_pos = Position 2 7, end_pos = Position 2 15,
        content = ustr ''trivial'', clause_type = ustr ''tactic_block''\<rparr>),
      (ustr ''tactic_1'',
       \<lparr>clause_id = ustr ''tactic_1'', start_pos = Position 3 0, end_pos = Position 3 9,
        content = ustr ''exact h'', clause_type = ustr ''tactic''\<rparr>)]"
  by (simp add: scan_eval doc_block_wide_def)

lemma lines_doc_have_closed:
  "split_lines doc_have_closed =
     [ustr ''theorem t : True := by'', ustr ''  have h : True := by trivial'', ustr ''  exact h'']"
  by (simp add: doc_have_closed_def ustr_def)

lemma lines_doc_block:
  "split_lines doc_block =
     [ustr ''theorem t : True := by'', ustr ''  have h : True :='', ustr ''    by trivial'',
      ustr ''  exact h'']"
  by (simp add: doc_block_def ustr_def)

lemma lines_doc_main_wide:
  "split_lines doc_main_wide = [ustr ''theorem t : True := by  trivial'']"
  by (simp add: doc_main_wide_def ustr_def)

lemma lines_doc_block_wide:
  "split_lines doc_block_wide =
     [ustr ''theorem t : True := by'', ustr ''  have h : True :='', ustr ''    by  trivial'',
      ustr ''  exact h'']"
  by (simp add: doc_block_wide_def ustr_def)

lemma lines_doc_true: "split_lines doc_true = [ustr ''theorem t : True := by sorry'']"
  by (simp add: doc_true_def ustr_def)

section \<open>Claims\<close>

text \<open>
  C2. For every session state and every clause id that is not a key of the clause map,
  \<open>edit_clause\<close> returns the error dictionary \<open>Clause '<id>' not found\<close> and leaves the
  whole state (document, clause map, messages, goals, compilation counter) as it was;
  the verifier does not take part in the result.
\<close>

theorem edit_unknown_clause:
  assumes "cid \<notin> fst ` set (editable_clauses st)"
  shows "edit_clause alnum run_command st cid new_text =
           (Inr (EditError (ustr ''Clause '' @ [39] @ cid @ [39] @ ustr '' not found'')
                   (thread_info_of st)), st)"
proof -
  from assms have "map_of (editable_clauses st) cid = None"
    by (simp add: map_of_eq_None_iff)
  then show ?thesis
    by (simp add: edit_clause_def)
qed

theorem edit_unknown_clause_witness:
  "ustr ''sorry_0'' \<notin> fst ` set (editable_clauses (snd (load_theorem ascii_alnum run_ok state0 doc_true))) \<and>
   edit_clause ascii_alnum run_error (snd (load_theorem ascii_alnum run_ok state0 doc_true))
       (ustr ''sorry_0'') (ustr ''trivial'') =
     (Inr (EditError (ustr ''Clause '' @ [39] @ ustr ''sorry_0'' @ [39] @ ustr '' not found'')
             (thread_info_of (snd (load_theorem ascii_alnum run_ok state0 doc_true)))),
      snd (load_theorem ascii_alnum run_ok state0 doc_true))"
proof -
  have absent: "ustr ''sorry_0'' \<notin>
      fst ` set (editable_clauses (snd (load_theorem ascii_alnum run_ok state0 doc_true)))"
    by (simp add: load_state_fields clauses_doc_true) (simp add: ustr_def)
  show ?thesis
    using absent edit_unknown_clause [OF absent, of ascii_alnum run_error "ustr ''trivial''"]
    by simp
qed

text \<open>
  C6. Right after \<open>load_theorem\<close> the panel shows the document as it was passed in, while
  the verifier was given the document with the theorem names made unique; and the panel
  leaves the state as it found it.
\<close>

theorem panel_after_load:
  "panel_current_code (fst (get_interactive_panel (snd (load_theorem alnum run_command st doc)))) = doc \<and>
   raw_response (fst (load_theorem alnum run_command st doc)) =
     response (run_command (make_thread_unique_code alnum doc (thread_id st) (session_id st))) \<and>
   snd (get_interactive_panel st') = st'"
  by (simp add: get_interactive_panel_def load_state_fields load_result_fields compile_result_fields)

theorem panel_after_load_witness:
  "panel_current_code (fst (get_interactive_panel
      (snd (load_theorem ascii_alnum run_ok state0 doc_true)))) = doc_true \<and>
   raw_response (fst (load_theorem ascii_alnum run_ok state0 doc_true)) = Some (ustr ''Success'') \<and>
   snd (get_interactive_panel (snd (load_theorem ascii_alnum run_ok state0 doc_true))) =
     snd (load_theorem ascii_alnum run_ok state0 doc_true) \<and>
   make_thread_unique_code ascii_alnum doc_true (thread_id state0) (session_id state0) =
     ustr ''theorem t_t7_sab12cd34 : True := by sorry''"
  using panel_after_load [of ascii_alnum run_ok state0 doc_true
      "snd (load_theorem ascii_alnum run_ok state0 doc_true)"]
  by (simp add: run_ok_def) (simp add: state0_def init_state_def unique_doc_true)

text \<open>
  C1. The result of a compilation, as \<open>load_theorem\<close> returns it and as \<open>edit_clause\<close>
  embeds it, has \<open>success\<close> exactly when none of its messages has severity \<open>error\<close>; the
  messages are those stored in the state. So messages of other severities never make
  \<open>success\<close> false.
\<close>

theorem success_iff_no_error_message:
  "(let r = fst (load_theorem alnum run_command st doc) in
      (success r \<longleftrightarrow> (\<forall>m \<in> set (messages r). severity m \<noteq> ustr ''error'')) \<and>
      messages r = current_messages (snd (load_theorem alnum run_command st doc))) \<and>
   (\<forall>e st'. edit_clause alnum run_command st cid new_text = (Inr (EditDone e), st') \<longrightarrow>
      (success (compilation_result e) \<longleftrightarrow>
         (\<forall>m \<in> set (messages (compilation_result e)). severity m \<noteq> ustr ''error'')) \<and>
      messages (compilation_result e) = current_messages st')"
proof (intro conjI allI impI)
  show "let r = fst (load_theorem alnum run_command st doc) in
      (success r \<longleftrightarrow> (\<forall>m \<in> set (messages r). severity m \<noteq> ustr ''error'')) \<and>
      messages r = current_messages (snd (load_theorem alnum run_command st doc))"
    by (simp add: Let_def load_result_fields compile_result_fields has_severity_iff load_state
        compile_state)
next
  fix e st'
  assume "edit_clause alnum run_command st cid new_text = (Inr (EditDone e), st')"
  from edit_clause_done [OF this] obtain st1 code where
    e: "compilation_result e = fst (compile_and_analyze alnum run_command st1 code)" and
    st': "st' = snd (compile_and_analyze alnum run_command st1 code)"
    by blast
  show "success (compilation_result e) \<longleftrightarrow>
         (\<forall>m \<in> set (messages (compilation_result e)). severity m \<noteq> ustr ''error'')"
    by (simp add: e compile_result_fields has_severity_iff)
  show "messages (compilation_result e) = current_messages st'"
    by (simp add: e st' compile_result_fields compile_state)
qed

theorem success_iff_no_error_message_witness:
  "success (fst (load_theorem ascii_alnum run_ok state0 doc_true)) \<and>
   map severity (messages (fst (load_theorem ascii_alnum run_ok state0 doc_true))) =
     [ustr ''info''] \<and>
   (\<exists>e st'. edit_clause ascii_alnum run_error (snd (load_theorem ascii_alnum run_ok state0 doc_true))
                (ustr ''main_proof_0'') (ustr ''trivial'') = (Inr (EditDone e), st') \<and>
       \<not> success (compilation_result e) \<and>
       map severity (messages (compilation_result e)) = [ustr ''error''])"
proof -
  let ?st = "snd (load_theorem ascii_alnum run_ok state0 doc_true)"
  let ?c = "\<lparr>clause_id = ustr ''main_proof_0'', start_pos = Position 0 22,
     end_pos = Position 0 28, content = ustr ''sorry'', clause_type = ustr ''main_proof''\<rparr>"
  have c: "map_of (editable_clauses ?st) (ustr ''main_proof_0'') = Some ?c"
    by (simp add: load_state_fields clauses_doc_true)
  have v: "line (start_pos ?c) < length (split_lines (current_code ?st))"
    by (simp add: load_state_fields doc_true_def ustr_def)
  obtain e st' where
    ed: "edit_clause ascii_alnum run_error ?st (ustr ''main_proof_0'') (ustr ''trivial'') =
           (Inr (EditDone e), st')" and
    cr: "\<exists>st1 code. compilation_result e = fst (compile_and_analyze ascii_alnum run_error st1 code)"
    using edit_clause_known [OF c v, of ascii_alnum run_error "ustr ''trivial''"]
    by (auto simp: Let_def)
  from cr have msgs: "map severity (messages (compilation_result e)) = [ustr ''error'']"
    by (auto simp: compile_result_fields messages_run_error mk_message_def)
  have msgs_ok: "map severity (messages (fst (load_theorem ascii_alnum run_ok state0 doc_true))) =
      [ustr ''info'']"
    by (simp add: load_result_fields compile_result_fields messages_run_ok mk_message_def)
  have sev: "\<And>ms m. map severity ms = [ustr ''info''] \<Longrightarrow> m \<in> set ms \<Longrightarrow>
      severity m \<noteq> ustr ''error''"
    by (auto simp: ustr_def)
  from success_iff_no_error_message [of ascii_alnum run_ok state0 doc_true "[]" "[]"]
  have ok: "success (fst (load_theorem ascii_alnum run_ok state0 doc_true))"
    using sev [OF msgs_ok] by (simp add: Let_def)
  have "\<exists>m \<in> set (messages (compilation_result e)). severity m = ustr ''error''"
    using msgs by (cases "messages (compilation_result e)") auto
  with success_iff_no_error_message [of ascii_alnum run_error ?st doc_true
      "ustr ''main_proof_0''" "ustr ''trivial''"] ed
  have "\<not> success (compilation_result e)"
    by blast
  with ok msgs_ok ed msgs show ?thesis
    by (intro conjI exI [of _ e] exI [of _ st']) assumption+
qed

text \<open>
  C10. In a state the session can reach, \<open>edit_clause\<close> with a key of the clause map
  returns the dictionary of an applied edit: \<open>edit_successful\<close> is true, the old and the
  new text and the edited document are in it, and the embedded compilation result is
  whatever compiling the edited document gives. No value of the verifier's answer changes
  \<open>edit_successful\<close>.
\<close>

theorem edit_known_clause_applies:
  assumes "reachable alnum st" and "map_of (editable_clauses st) cid = Some clause"
  shows "\<exists>e st'. edit_clause alnum run_command st cid new_text = (Inr (EditDone e), st') \<and>
           edit_successful e \<and> edited_clause_id e = cid \<and>
           old_content e = content clause \<and> new_content e = new_text \<and>
           updated_code e = edited_code st clause new_text \<and>
           current_code st' = updated_code e \<and>
           compilation_result e =
             fst (compile_and_analyze alnum run_command
                    (st\<lparr>current_code := edited_code st clause new_text\<rparr>)
                    (make_thread_unique_code alnum (edited_code st clause new_text)
                       (thread_id st) (session_id st)))"
  unfolding edit_clause_known [OF assms(2) reachable_line_valid [OF assms]] Let_def
  by (simp add: compile_state)

theorem edit_known_clause_applies_witness:
  "reachable ascii_alnum (snd (load_theorem ascii_alnum run_ok state0 doc_true)) \<and>
   map_of (editable_clauses (snd (load_theorem ascii_alnum run_ok state0 doc_true)))
     (ustr ''main_proof_0'') \<noteq> None \<and>
   (\<exists>e st'. edit_clause ascii_alnum run_error (snd (load_theorem ascii_alnum run_ok state0 doc_true))
                (ustr ''main_proof_0'') (ustr ''trivial'') = (Inr (EditDone e), st') \<and>
       edit_successful e \<and> \<not> success (compilation_result e) \<and>
       updated_code e = ustr ''theorem t : True := by trivial'') \<and>
   (\<exists>e st'. edit_clause ascii_alnum run_ok (snd (load_theorem ascii_alnum run_ok state0 doc_true))
                (ustr ''main_proof_0'') (ustr ''trivial'') = (Inr (EditDone e), st') \<and>
       edit_successful e \<and> success (compilation_result e))"
proof -
  let ?st = "snd (load_theorem ascii_alnum run_ok state0 doc_true)"
  let ?c = "\<lparr>clause_id = ustr ''main_proof_0'', start_pos = Position 0 22,
     end_pos = Position 0 28, content = ustr ''sorry'', clause_type = ustr ''main_proof''\<rparr>"
  have c: "map_of (editable_clauses ?st) (ustr ''main_proof_0'') = Some ?c"
    by (simp add: load_state_fields clauses_doc_true)
  have code: "edited_code ?st ?c (ustr ''trivial'') = ustr ''theorem t : True := by trivial''"
    by (simp add: edited_code_def load_state_fields doc_true_def edit_line_def ustr_def
        startswith_def)
  from edit_known_clause_applies [OF reachable_loaded_doc_true c, of run_error "ustr ''trivial''"]
  have bad: "\<exists>e st'. edit_clause ascii_alnum run_error ?st
                (ustr ''main_proof_0'') (ustr ''trivial'') = (Inr (EditDone e), st') \<and>
       edit_successful e \<and> \<not> success (compilation_result e) \<and>
       updated_code e = ustr ''theorem t : True := by trivial''"
    by (auto simp: code compile_result_fields messages_run_error has_severity_def mk_message_def)
  from edit_known_clause_applies [OF reachable_loaded_doc_true c, of run_ok "ustr ''trivial''"]
  have good: "\<exists>e st'. edit_clause ascii_alnum run_ok ?st
                (ustr ''main_proof_0'') (ustr ''trivial'') = (Inr (EditDone e), st') \<and>
       edit_successful e \<and> success (compilation_result e)"
    by (auto simp: compile_result_fields messages_run_ok has_severity_def mk_message_def ustr_def)
  from reachable_loaded_doc_true c bad good show ?thesis by simp
qed

text \<open>
  C9. In a state the session can reach, \<open>add_proof_structure\<close> drops the blank lines,
  gives every other line an indentation of two blanks (a line that starts with two blanks
  keeps its own, without trailing white space), joins the lines with line feeds and edits
  the first key of the clause map that starts with \<open>main_proof\<close> or \<open>sorry\<close>, which
  applies the edit; it returns the error dictionary, with the state as it was, exactly
  when no key starts with either prefix.
\<close>

theorem add_proof_structure_target:
  assumes "reachable alnum st"
  shows
    "(find is_target (map fst (editable_clauses st)) = None \<longrightarrow>
        add_proof_structure alnum run_command st ls =
          (Inr (EditError (ustr ''No main proof clause found to add structure to'')
                  (thread_info_of st)), st)) \<and>
     (\<forall>cid. find is_target (map fst (editable_clauses st)) = Some cid \<longrightarrow>
        add_proof_structure alnum run_command st ls =
          edit_clause alnum run_command st cid (join_lines (concat (map indent_line ls))) \<and>
        (\<exists>e st'. add_proof_structure alnum run_command st ls = (Inr (EditDone e), st'))) \<and>
     (find is_target (map fst (editable_clauses st)) = None \<longleftrightarrow>
        \<not> (\<exists>cid \<in> set (map fst (editable_clauses st)). is_target cid)) \<and>
     concat (map indent_line ls) =
       map (\<lambda>l. if startswith l (ustr ''  '') then rstrip l else ustr ''  '' @ strip l)
         (filter (\<lambda>l. strip l \<noteq> []) ls) \<and>
     (\<forall>l \<in> set (concat (map indent_line ls)). startswith l (ustr ''  '') \<and> strip l \<noteq> [])"
proof (intro conjI allI impI)
  assume "find is_target (map fst (editable_clauses st)) = None"
  then show "add_proof_structure alnum run_command st ls =
          (Inr (EditError (ustr ''No main proof clause found to add structure to'')
                  (thread_info_of st)), st)"
    by (simp add: add_proof_structure_find [OF assms])
next
  fix cid
  assume f: "find is_target (map fst (editable_clauses st)) = Some cid"
  then show eq: "add_proof_structure alnum run_command st ls =
          edit_clause alnum run_command st cid (join_lines (concat (map indent_line ls)))"
    by (simp add: add_proof_structure_find [OF assms])
  from f have "cid \<in> set (map fst (editable_clauses st))"
    by (auto simp: find_Some_iff)
  then obtain c where c: "map_of (editable_clauses st) cid = Some c"
    by (cases "map_of (editable_clauses st) cid") (auto simp: map_of_eq_None_iff)
  show "\<exists>e st'. add_proof_structure alnum run_command st ls = (Inr (EditDone e), st')"
    unfolding eq edit_clause_known [OF c reachable_line_valid [OF assms c]] Let_def
    by simp
next
  show "find is_target (map fst (editable_clauses st)) = None \<longleftrightarrow>
        \<not> (\<exists>cid \<in> set (map fst (editable_clauses st)). is_target cid)"
    by (simp add: find_None_iff)
next
  show "concat (map indent_line ls) =
       map (\<lambda>l. if startswith l (ustr ''  '') then rstrip l else ustr ''  '' @ strip l)
         (filter (\<lambda>l. strip l \<noteq> []) ls)"
    by (rule indented_lines)
next
  show "\<forall>l \<in> set (concat (map indent_line ls)). startswith l (ustr ''  '') \<and> strip l \<noteq> []"
    using indent_line_indented by auto
qed

theorem add_proof_structure_target_witness:
  "find is_target (map fst (editable_clauses (snd (load_theorem ascii_alnum run_ok state0 doc_true))))
     = Some (ustr ''main_proof_0'') \<and>
   add_proof_structure ascii_alnum run_ok (snd (load_theorem ascii_alnum run_ok state0 doc_true))
       structure_lines0 =
     edit_clause ascii_alnum run_ok (snd (load_theorem ascii_alnum run_ok state0 doc_true))
       (ustr ''main_proof_0'') (ustr ''  intro h'' @ [10] @ ustr ''  exact h'') \<and>
   find is_target (map fst (editable_clauses state0)) = None \<and>
   add_proof_structure ascii_alnum run_ok state0 structure_lines0 =
     (Inr (EditError (ustr ''No main proof clause found to add structure to'')
             (thread_info_of state0)), state0)"
proof -
  let ?st = "snd (load_theorem ascii_alnum run_ok state0 doc_true)"
  have f: "find is_target (map fst (editable_clauses ?st)) = Some (ustr ''main_proof_0'')"
    by (simp add: load_state_fields clauses_doc_true is_target_def startswith_def ustr_def)
  have n: "find is_target (map fst (editable_clauses state0)) = None"
    by (simp add: state0_def init_state_def)
  have ls: "join_lines (concat (map indent_line structure_lines0)) =
      ustr ''  intro h'' @ [10] @ ustr ''  exact h''"
    by (simp add: structure_lines0_def indent_line_def strip_def lstrip_def rstrip_def
        isspace_def startswith_def ustr_def)
  from add_proof_structure_target [OF reachable_loaded_doc_true, of run_ok structure_lines0] f
  have a: "add_proof_structure ascii_alnum run_ok ?st structure_lines0 =
     edit_clause ascii_alnum run_ok ?st (ustr ''main_proof_0'')
       (ustr ''  intro h'' @ [10] @ ustr ''  exact h'')"
    unfolding ls by blast
  from add_proof_structure_target [OF reachable_state0, of ascii_alnum run_ok structure_lines0] n
  have b: "add_proof_structure ascii_alnum run_ok state0 structure_lines0 =
     (Inr (EditError (ustr ''No main proof clause found to add structure to'')
             (thread_info_of state0)), state0)"
    by blast
  from f a n b show ?thesis by (intro conjI)
qed




text \<open>
  C3, as the code has it. Loading the one-line document
  \<open>theorem t (A B : Prop) : A \<and> B \<rightarrow> B \<and> A := by sorry\<close> gives a
  clause map with the single clause \<open>main_proof_0\<close>, of type \<open>main_proof\<close> and text
  \<open>sorry\<close>: a proof on the theorem's own line is the main proof. Editing that clause to
  the finished proof gives the document with the proof in place, and the clause map, also
  after loading that document again, has the single clause \<open>main_proof_0\<close> of type
  \<open>main_proof\<close> and no clause of type \<open>sorry\<close>.
\<close>

theorem and_comm_example:
  "editable_clauses (snd (load_theorem alnum run_command st doc_and_comm)) =
     [(ustr ''main_proof_0'', clause_and_comm)] \<and>
   (\<exists>e st'. edit_clause alnum run_command' (snd (load_theorem alnum run_command st doc_and_comm))
               (ustr ''main_proof_0'') proof_and_comm = (Inr (EditDone e), st') \<and>
      updated_code e = doc_and_comm_done \<and> current_code st' = doc_and_comm_done \<and>
      editable_clauses st' = [(ustr ''main_proof_0'', clause_and_comm_done)] \<and>
      editable_clauses (snd (load_theorem alnum run_command'' st' (current_code st'))) =
        [(ustr ''main_proof_0'', clause_and_comm_done)] \<and>
      \<not> list_ex (\<lambda>kc. clause_type (snd kc) = ustr ''sorry'') (editable_clauses st'))"
proof -
  let ?st = "snd (load_theorem alnum run_command st doc_and_comm)"
  have cl: "editable_clauses ?st = [(ustr ''main_proof_0'', clause_and_comm)]"
    by (simp add: load_state_fields clauses_doc_and_comm)
  then have c: "map_of (editable_clauses ?st) (ustr ''main_proof_0'') = Some clause_and_comm"
    by simp
  have code: "current_code ?st = doc_and_comm"
    by (simp add: load_state_fields)
  have v: "line (start_pos clause_and_comm) < length (split_lines (current_code ?st))"
    by (simp add: clause_and_comm_def split_lines_nonempty)
  have "\<exists>e st'. edit_clause alnum run_command' ?st (ustr ''main_proof_0'') proof_and_comm =
          (Inr (EditDone e), st') \<and>
      updated_code e = doc_and_comm_done \<and> current_code st' = doc_and_comm_done \<and>
      editable_clauses st' = [(ustr ''main_proof_0'', clause_and_comm_done)] \<and>
      editable_clauses (snd (load_theorem alnum run_command'' st' (current_code st'))) =
        [(ustr ''main_proof_0'', clause_and_comm_done)] \<and>
      \<not> list_ex (\<lambda>kc. clause_type (snd kc) = ustr ''sorry'') (editable_clauses st')"
    unfolding edit_clause_known [OF c v] Let_def
    by (simp add: edited_doc_and_comm [OF code] compile_state load_state_fields
        clauses_doc_and_comm_done)
      (simp add: clause_and_comm_done_def main_proof_not_sorry)
  with cl show ?thesis by simp
qed

theorem and_comm_example_witness:
  "map fst (editable_clauses (snd (load_theorem ascii_alnum run_ok state0 doc_and_comm))) =
     [ustr ''main_proof_0''] \<and>
   (\<exists>e st'. edit_clause ascii_alnum run_ok (snd (load_theorem ascii_alnum run_ok state0 doc_and_comm))
               (ustr ''main_proof_0'') proof_and_comm = (Inr (EditDone e), st') \<and>
      map (\<lambda>kc. clause_type (snd kc)) (editable_clauses st') = [ustr ''main_proof''])"
proof -
  from and_comm_example [of ascii_alnum run_ok state0 run_ok run_ok]
  show ?thesis
    by (auto simp: clause_and_comm_done_def)
qed

text \<open>
  C3 as it is stated fails: the single clause of the loaded document does not have the
  type \<open>sorry\<close>.
\<close>

theorem and_comm_counterexample:
  "\<not> (\<exists>k c. editable_clauses (snd (load_theorem ascii_alnum run_ok state0 doc_and_comm)) = [(k, c)] \<and>
           clause_type c = ustr ''sorry'')"
  by (simp add: load_state_fields clauses_doc_and_comm clause_and_comm_def main_proof_not_sorry)

text \<open>
  C7, as the code has it. In a state the session can reach, editing a clause with its
  own text applies the edit and compiles once more. For a clause of type \<open>sorry\<close> the
  document, and with it the clause map, stays as it was. For a clause of type \<open>tactic\<close>
  or \<open>proof_line\<close> the clause's line becomes as many blanks as the line had leading
  white space, followed by the stripped line; the document and the clause map stay as they
  were when the line already had that form. For a clause of type \<open>main_proof\<close>, \<open>have\<close>
  or \<open>tactic_block\<close> the document and the clause map stay as they were when, on the
  clause's line, the first \<open>:= by\<close> (for \<open>main_proof\<close>) or the first \<open>by\<close> (for the other
  two) is followed by one blank and the clause's text, and by nothing else.
\<close>

theorem same_text_edit:
  assumes "reachable alnum st" and "map_of (editable_clauses st) cid = Some clause"
  shows "\<exists>e st'. edit_clause alnum run_command st cid (content clause) = (Inr (EditDone e), st') \<and>
           compilation_id st' = compilation_id st + 1 \<and>
           editable_clauses st' = identify_editable_clauses alnum (current_code st') \<and>
           (clause_type clause = ustr ''sorry'' \<longrightarrow>
              current_code st' = current_code st \<and> editable_clauses st' = editable_clauses st) \<and>
           (clause_type clause = ustr ''tactic'' \<or> clause_type clause = ustr ''proof_line'' \<longrightarrow>
              (let ls = split_lines (current_code st); i = line (start_pos clause); ln = ls ! i;
                   normal = replicate (length ln - length (lstrip ln)) 32 @ strip ln
               in current_code st' = join_lines (ls[i := normal]) \<and>
                  (ln = normal \<longrightarrow>
                     current_code st' = current_code st \<and>
                     editable_clauses st' = editable_clauses st))) \<and>
           (clause_type clause = ustr ''main_proof'' \<longrightarrow>
              (let ln = split_lines (current_code st) ! line (start_pos clause)
               in \<forall>k. find_sub ln (ustr '':= by'') = Some k \<and>
                      drop (k + 5) ln = ustr '' '' @ content clause \<longrightarrow>
                    current_code st' = current_code st \<and>
                    editable_clauses st' = editable_clauses st)) \<and>
           (clause_type clause = ustr ''have'' \<or> clause_type clause = ustr ''tactic_block'' \<longrightarrow>
              (let ln = split_lines (current_code st) ! line (start_pos clause)
               in \<forall>k. find_sub ln (ustr ''by'') = Some k \<and>
                      drop (k + 2) ln = ustr '' '' @ content clause \<longrightarrow>
                    current_code st' = current_code st \<and>
                    editable_clauses st' = editable_clauses st))"
proof -
  let ?ls = "split_lines (current_code st)"
  let ?i = "line (start_pos clause)"
  let ?ln = "?ls ! ?i"
  let ?normal = "replicate (length ?ln - length (lstrip ?ln)) 32 @ strip ?ln"
  let ?run = "edit_clause alnum run_command st cid (content clause)"
  note v = reachable_line_valid [OF assms]
  note wf = reachable_clauses [OF assms(1)]
  from reachable_clause_fits [OF assms] obtain j where
    fits: "clause_fits j (?ls ! j) cid clause" by blast
  then have j: "j = ?i" by (auto simp: clause_fits_def)
  have st': "snd ?run =
     snd (compile_and_analyze alnum run_command
            (st\<lparr>current_code := edited_code st clause (content clause)\<rparr>)
            (make_thread_unique_code alnum (edited_code st clause (content clause))
               (thread_id st) (session_id st)))"
    by (rule edit_clause_known_state [OF assms(2) v])
  have code: "current_code (snd ?run) = edited_code st clause (content clause)"
    by (rule edit_clause_known_code [OF assms(2) v])
  have applied: "\<exists>e. ?run = (Inr (EditDone e), snd ?run)"
    unfolding edit_clause_known [OF assms(2) v] Let_def by simp
  have count: "compilation_id (snd ?run) = compilation_id st + 1"
    by (simp add: st' compile_state)
  have derived: "editable_clauses (snd ?run) = identify_editable_clauses alnum (current_code (snd ?run))"
    by (simp add: st' compile_state)
  have same: "editable_clauses (snd ?run) = editable_clauses st"
    if "current_code (snd ?run) = current_code st"
    using that derived wf by simp
  have sorry_case: "current_code (snd ?run) = current_code st"
    if ty: "clause_type clause = ustr ''sorry''"
  proof -
    from clause_fits_sorry_text [OF fits ty] have "content clause = ustr ''sorry''" .
    then have "edit_line clause (content clause) ?ln = ?ln"
      by (simp add: edit_line_sorry [OF ty] py_replace_same ustr_def)
    from edited_code_same_line [OF this] code show ?thesis by simp
  qed
  have line_case: "current_code (snd ?run) = join_lines (?ls[?i := ?normal])"
    if ty: "clause_type clause = ustr ''tactic'' \<or> clause_type clause = ustr ''proof_line''"
  proof -
    from clause_fits_line_text [OF fits ty] j have "content clause = strip ?ln" by simp
    then have "edited_code st clause (content clause) = join_lines (?ls[?i := ?normal])"
      by (simp add: edited_code_def edit_line_whole [OF ty])
    with code show ?thesis by simp
  qed
  have normal_case: "current_code (snd ?run) = current_code st"
    if ty: "clause_type clause = ustr ''tactic'' \<or> clause_type clause = ustr ''proof_line''"
      and n: "?ln = ?normal"
  proof -
    have "?ls[?i := ?normal] = ?ls"
      using n by (metis list_update_id)
    with line_case [OF ty] show ?thesis
      by (simp add: join_split_lines)
  qed
  have main_case: "current_code (snd ?run) = current_code st"
    if ty: "clause_type clause = ustr ''main_proof''"
      and k: "find_sub ?ln (ustr '':= by'') = Some k"
      and rest: "drop (k + 5) ?ln = ustr '' '' @ content clause" for k
  proof -
    have "take (k + 5) ?ln @ ustr '' '' @ content clause = ?ln"
      unfolding rest [symmetric] by (rule append_take_drop_id)
    then have "edit_line clause (content clause) ?ln = ?ln"
      by (simp add: edit_line_main_proof [OF ty] k)
    from edited_code_same_line [OF this] code show ?thesis by simp
  qed
  have by_case: "current_code (snd ?run) = current_code st"
    if ty: "clause_type clause = ustr ''have'' \<or> clause_type clause = ustr ''tactic_block''"
      and k: "find_sub ?ln (ustr ''by'') = Some k"
      and rest: "drop (k + 2) ?ln = ustr '' '' @ content clause" for k
  proof -
    have "take (k + 2) ?ln @ ustr '' '' @ content clause = ?ln"
      unfolding rest [symmetric] by (rule append_take_drop_id)
    then have "edit_line clause (content clause) ?ln = ?ln"
      by (simp add: edit_line_by [OF ty] k)
    from edited_code_same_line [OF this] code show ?thesis by simp
  qed
  from applied obtain e where e: "?run = (Inr (EditDone e), snd ?run)" ..
  show ?thesis
    apply (rule exI [of _ e], rule exI [of _ "snd ?run"])
    apply (intro conjI impI)
    subgoal by (rule e)
    subgoal by (rule count)
    subgoal by (rule derived)
    subgoal by (rule sorry_case)
    subgoal by (rule same [OF sorry_case])
    subgoal unfolding Let_def
      apply (intro conjI impI)
      subgoal by (rule line_case)
      subgoal by (rule normal_case)
      subgoal by (rule same [OF normal_case])
      done
    subgoal unfolding Let_def using main_case same by blast
    subgoal unfolding Let_def using by_case same by blast
    done
qed

theorem same_text_edit_witness:
  "current_code (snd (edit_clause ascii_alnum run_ok
      (snd (load_theorem ascii_alnum run_ok state0 doc_two_sorries))
      (ustr ''sorry_0'') (ustr ''sorry''))) = doc_two_sorries \<and>
   current_code (snd (edit_clause ascii_alnum run_ok
      (snd (load_theorem ascii_alnum run_ok state0 doc_have_open))
      (ustr ''tactic_2'') (ustr ''exact h''))) = doc_have_open \<and>
   current_code (snd (edit_clause ascii_alnum run_ok
      (snd (load_theorem ascii_alnum run_ok state0 doc_true))
      (ustr ''main_proof_0'') (ustr ''sorry''))) = doc_true \<and>
   current_code (snd (edit_clause ascii_alnum run_ok
      (snd (load_theorem ascii_alnum run_ok state0 doc_have_closed))
      (ustr ''have_h'') (ustr ''trivial''))) = doc_have_closed \<and>
   current_code (snd (edit_clause ascii_alnum run_ok
      (snd (load_theorem ascii_alnum run_ok state0 doc_block))
      (ustr ''tactic_block_0'') (ustr ''trivial''))) = doc_block"
proof -
  let ?s2 = "snd (load_theorem ascii_alnum run_ok state0 doc_two_sorries)"
  let ?sh = "snd (load_theorem ascii_alnum run_ok state0 doc_have_open)"
  let ?c2 = "\<lparr>clause_id = ustr ''sorry_0'', start_pos = Position 1 18, end_pos = Position 1 23,
        content = ustr ''sorry'', clause_type = ustr ''sorry''\<rparr>"
  let ?ch = "\<lparr>clause_id = ustr ''tactic_2'', start_pos = Position 3 0, end_pos = Position 3 9,
        content = ustr ''exact h'', clause_type = ustr ''tactic''\<rparr>"
  let ?ln = "split_lines (current_code ?sh) ! line (start_pos ?ch)"
  have c2: "map_of (editable_clauses ?s2) (ustr ''sorry_0'') = Some ?c2"
    by (simp add: load_state_fields clauses_doc_two_sorries)
  have ch: "map_of (editable_clauses ?sh) (ustr ''tactic_2'') = Some ?ch"
    by (simp add: load_state_fields clauses_doc_have_open ustr_eq_iff)
  have ty2: "clause_type ?c2 = ustr ''sorry''" and tx2: "content ?c2 = ustr ''sorry''"
    by simp_all
  have tyh: "clause_type ?ch = ustr ''tactic'' \<or> clause_type ?ch = ustr ''proof_line''"
    and txh: "content ?ch = ustr ''exact h''"
    by simp_all
  have ln: "?ln = ustr ''  exact h''"
    by (simp add: load_state_fields lines_doc_have_open)
  have "replicate (length (ustr ''  exact h'') - length (lstrip (ustr ''  exact h''))) 32 @
      strip (ustr ''  exact h'') = ustr ''  exact h''"
    by (simp add: ustr_def strip_def lstrip_def rstrip_def isspace_def)
  then have normal: "?ln = replicate (length ?ln - length (lstrip ?ln)) 32 @ strip ?ln"
    unfolding ln by (rule sym)
  from same_text_edit [OF reachable_loaded_state0 c2, of run_ok] obtain e st' where
    ed: "edit_clause ascii_alnum run_ok ?s2 (ustr ''sorry_0'') (content ?c2) = (Inr (EditDone e), st')"
    and keep: "clause_type ?c2 = ustr ''sorry'' \<longrightarrow>
      current_code st' = current_code ?s2 \<and> editable_clauses st' = editable_clauses ?s2"
    by blast
  from ed have "snd (edit_clause ascii_alnum run_ok ?s2 (ustr ''sorry_0'') (content ?c2)) = st'"
    by (simp only: snd_conv)
  with keep ty2 have "current_code (snd (edit_clause ascii_alnum run_ok ?s2 (ustr ''sorry_0'')
      (content ?c2))) = current_code ?s2"
    by blast
  then have first: "current_code (snd (edit_clause ascii_alnum run_ok ?s2 (ustr ''sorry_0'')
      (ustr ''sorry''))) = doc_two_sorries"
    unfolding tx2 by (simp only: load_state_fields)
  from same_text_edit [OF reachable_loaded_state0 ch, of run_ok, unfolded Let_def]
  obtain e' st'' where
    ed': "edit_clause ascii_alnum run_ok ?sh (ustr ''tactic_2'') (content ?ch) =
            (Inr (EditDone e'), st'')"
    and keep': "clause_type ?ch = ustr ''tactic'' \<or> clause_type ?ch = ustr ''proof_line'' \<longrightarrow>
      current_code st'' = join_lines ((split_lines (current_code ?sh))
          [line (start_pos ?ch) := replicate (length ?ln - length (lstrip ?ln)) 32 @ strip ?ln]) \<and>
      (?ln = replicate (length ?ln - length (lstrip ?ln)) 32 @ strip ?ln \<longrightarrow>
         current_code st'' = current_code ?sh \<and> editable_clauses st'' = editable_clauses ?sh)"
    by blast
  from ed' have "snd (edit_clause ascii_alnum run_ok ?sh (ustr ''tactic_2'') (content ?ch)) = st''"
    by (simp only: snd_conv)
  with keep' tyh normal have "current_code (snd (edit_clause ascii_alnum run_ok ?sh
      (ustr ''tactic_2'') (content ?ch))) = current_code ?sh"
    by blast
  then have second: "current_code (snd (edit_clause ascii_alnum run_ok ?sh (ustr ''tactic_2'')
      (ustr ''exact h''))) = doc_have_open"
    unfolding txh by (simp only: load_state_fields)
  let ?sm = "snd (load_theorem ascii_alnum run_ok state0 doc_true)"
  let ?cm = "\<lparr>clause_id = ustr ''main_proof_0'', start_pos = Position 0 22,
     end_pos = Position 0 28, content = ustr ''sorry'', clause_type = ustr ''main_proof''\<rparr>"
  let ?lm = "split_lines (current_code ?sm) ! line (start_pos ?cm)"
  have cm: "map_of (editable_clauses ?sm) (ustr ''main_proof_0'') = Some ?cm"
    by (simp add: load_state_fields clauses_doc_true)
  have tym: "clause_type ?cm = ustr ''main_proof''" and txm: "content ?cm = ustr ''sorry''"
    by simp_all
  have lnm: "?lm = ustr ''theorem t : True := by sorry''"
    by (simp add: load_state_fields lines_doc_true)
  have "find_sub (ustr ''theorem t : True := by sorry'') (ustr '':= by'') = Some 17"
    by (simp add: startswith_def ustr_def)
  then have km: "find_sub ?lm (ustr '':= by'') = Some 17"
    unfolding lnm .
  have "drop (17 + 5) (ustr ''theorem t : True := by sorry'') = ustr '' '' @ ustr ''sorry''"
    by (simp add: ustr_def)
  then have rm: "drop (17 + 5) ?lm = ustr '' '' @ content ?cm"
    unfolding lnm txm .
  from same_text_edit [OF reachable_loaded_state0 cm, of run_ok, unfolded Let_def]
  obtain em stm where
    edm: "edit_clause ascii_alnum run_ok ?sm (ustr ''main_proof_0'') (content ?cm) =
            (Inr (EditDone em), stm)"
    and keepm: "clause_type ?cm = ustr ''main_proof'' \<longrightarrow>
      (\<forall>k. find_sub ?lm (ustr '':= by'') = Some k \<and>
           drop (k + 5) ?lm = ustr '' '' @ content ?cm \<longrightarrow>
         current_code stm = current_code ?sm \<and>
         editable_clauses stm = editable_clauses ?sm)"
    by blast
  from edm have "snd (edit_clause ascii_alnum run_ok ?sm (ustr ''main_proof_0'') (content ?cm)) =
      stm"
    by (simp only: snd_conv)
  with keepm tym km rm have "current_code (snd (edit_clause ascii_alnum run_ok ?sm
      (ustr ''main_proof_0'') (content ?cm))) = current_code ?sm"
    by blast
  then have resm: "current_code (snd (edit_clause ascii_alnum run_ok ?sm (ustr ''main_proof_0'')
      (ustr ''sorry''))) = doc_true"
    unfolding txm by (simp only: load_state_fields)
  let ?sv = "snd (load_theorem ascii_alnum run_ok state0 doc_have_closed)"
  let ?cv = "\<lparr>clause_id = ustr ''have_h'', start_pos = Position 1 22, end_pos = Position 1 29,
        content = ustr ''trivial'', clause_type = ustr ''have''\<rparr>"
  let ?lv = "split_lines (current_code ?sv) ! line (start_pos ?cv)"
  have cv: "map_of (editable_clauses ?sv) (ustr ''have_h'') = Some ?cv"
    by (simp add: load_state_fields clauses_doc_have_closed)
  have tyv: "clause_type ?cv = ustr ''have'' \<or> clause_type ?cv = ustr ''tactic_block''" and txv: "content ?cv = ustr ''trivial''"
    by simp_all
  have lnv: "?lv = ustr ''  have h : True := by trivial''"
    by (simp add: load_state_fields lines_doc_have_closed)
  have "find_sub (ustr ''  have h : True := by trivial'') (ustr ''by'') = Some 19"
    by (simp add: startswith_def ustr_def)
  then have kv: "find_sub ?lv (ustr ''by'') = Some 19"
    unfolding lnv .
  have "drop (19 + 2) (ustr ''  have h : True := by trivial'') = ustr '' '' @ ustr ''trivial''"
    by (simp add: ustr_def)
  then have rv: "drop (19 + 2) ?lv = ustr '' '' @ content ?cv"
    unfolding lnv txv .
  from same_text_edit [OF reachable_loaded_state0 cv, of run_ok, unfolded Let_def]
  obtain ev stv where
    edv: "edit_clause ascii_alnum run_ok ?sv (ustr ''have_h'') (content ?cv) =
            (Inr (EditDone ev), stv)"
    and keepv: "clause_type ?cv = ustr ''have'' \<or> clause_type ?cv = ustr ''tactic_block'' \<longrightarrow>
      (\<forall>k. find_sub ?lv (ustr ''by'') = Some k \<and>
           drop (k + 2) ?lv = ustr '' '' @ content ?cv \<longrightarrow>
         current_code stv = current_code ?sv \<and>
         editable_clauses stv = editable_clauses ?sv)"
    by blast
  from edv have "snd (edit_clause ascii_alnum run_ok ?sv (ustr ''have_h'') (content ?cv)) =
      stv"
    by (simp only: snd_conv)
  with keepv tyv kv rv have "current_code (snd (edit_clause ascii_alnum run_ok ?sv
      (ustr ''have_h'') (content ?cv))) = current_code ?sv"
    by blast
  then have resv: "current_code (snd (edit_clause ascii_alnum run_ok ?sv (ustr ''have_h'')
      (ustr ''trivial''))) = doc_have_closed"
    unfolding txv by (simp only: load_state_fields)
  let ?sb = "snd (load_theorem ascii_alnum run_ok state0 doc_block)"
  let ?cb = "\<lparr>clause_id = ustr ''tactic_block_0'', start_pos = Position 2 7, end_pos = Position 2 14,
        content = ustr ''trivial'', clause_type = ustr ''tactic_block''\<rparr>"
  let ?lb = "split_lines (current_code ?sb) ! line (start_pos ?cb)"
  have cb: "map_of (editable_clauses ?sb) (ustr ''tactic_block_0'') = Some ?cb"
    by (simp add: load_state_fields clauses_doc_block)
  have tyb: "clause_type ?cb = ustr ''have'' \<or> clause_type ?cb = ustr ''tactic_block''" and txb: "content ?cb = ustr ''trivial''"
    by simp_all
  have lnb: "?lb = ustr ''    by trivial''"
    by (simp add: load_state_fields lines_doc_block)
  have "find_sub (ustr ''    by trivial'') (ustr ''by'') = Some 4"
    by (simp add: startswith_def ustr_def)
  then have kb: "find_sub ?lb (ustr ''by'') = Some 4"
    unfolding lnb .
  have "drop (4 + 2) (ustr ''    by trivial'') = ustr '' '' @ ustr ''trivial''"
    by (simp add: ustr_def)
  then have rb: "drop (4 + 2) ?lb = ustr '' '' @ content ?cb"
    unfolding lnb txb .
  from same_text_edit [OF reachable_loaded_state0 cb, of run_ok, unfolded Let_def]
  obtain eb stb where
    edb: "edit_clause ascii_alnum run_ok ?sb (ustr ''tactic_block_0'') (content ?cb) =
            (Inr (EditDone eb), stb)"
    and keepb: "clause_type ?cb = ustr ''have'' \<or> clause_type ?cb = ustr ''tactic_block'' \<longrightarrow>
      (\<forall>k. find_sub ?lb (ustr ''by'') = Some k \<and>
           drop (k + 2) ?lb = ustr '' '' @ content ?cb \<longrightarrow>
         current_code stb = current_code ?sb \<and>
         editable_clauses stb = editable_clauses ?sb)"
    by blast
  from edb have "snd (edit_clause ascii_alnum run_ok ?sb (ustr ''tactic_block_0'') (content ?cb)) =
      stb"
    by (simp only: snd_conv)
  with keepb tyb kb rb have "current_code (snd (edit_clause ascii_alnum run_ok ?sb
      (ustr ''tactic_block_0'') (content ?cb))) = current_code ?sb"
    by blast
  then have resb: "current_code (snd (edit_clause ascii_alnum run_ok ?sb (ustr ''tactic_block_0'')
      (ustr ''trivial''))) = doc_block"
    unfolding txb by (simp only: load_state_fields)
  from first second resm resv resb show ?thesis by (intro conjI)
qed

text \<open>
  C7 as it is stated fails. A \<open>tactic\<close> line that ends in a blank loses the blank; a
  \<open>have\<close> line whose proof is on the lines below has the clause text \<open>sorry\<close>, which the
  edit writes behind \<open>by\<close>; and a \<open>main_proof\<close> or \<open>tactic_block\<close> line with two blanks
  behind \<open>by\<close> keeps one of them.
\<close>

theorem same_text_edit_counterexample:
  "map (content \<circ> snd) (editable_clauses (snd (load_theorem ascii_alnum run_ok state0 doc_trailing)))
     = [ustr ''trivial''] \<and>
   current_code (snd (edit_clause ascii_alnum run_ok
      (snd (load_theorem ascii_alnum run_ok state0 doc_trailing))
      (ustr ''tactic_0'') (ustr ''trivial''))) =
     ustr ''theorem t : True := by'' @ [10] @ ustr ''  trivial'' \<and>
   ustr ''theorem t : True := by'' @ [10] @ ustr ''  trivial'' \<noteq> doc_trailing \<and>
   map_of (map (\<lambda>kc. (fst kc, content (snd kc)))
      (editable_clauses (snd (load_theorem ascii_alnum run_ok state0 doc_have_open))))
      (ustr ''have_h'') = Some (ustr ''sorry'') \<and>
   current_code (snd (edit_clause ascii_alnum run_ok
      (snd (load_theorem ascii_alnum run_ok state0 doc_have_open))
      (ustr ''have_h'') (ustr ''sorry''))) =
     ustr ''theorem t : True := by'' @ [10] @ ustr ''  have h : True := by sorry'' @ [10] @
     ustr ''    trivial'' @ [10] @ ustr ''  exact h'' \<and>
   ustr ''theorem t : True := by'' @ [10] @ ustr ''  have h : True := by sorry'' @ [10] @
     ustr ''    trivial'' @ [10] @ ustr ''  exact h'' \<noteq> doc_have_open \<and>
   map_of (map (\<lambda>kc. (fst kc, content (snd kc)))
      (editable_clauses (snd (load_theorem ascii_alnum run_ok state0 doc_main_wide))))
      (ustr ''main_proof_0'') = Some (ustr ''trivial'') \<and>
   current_code (snd (edit_clause ascii_alnum run_ok
      (snd (load_theorem ascii_alnum run_ok state0 doc_main_wide))
      (ustr ''main_proof_0'') (ustr ''trivial''))) = ustr ''theorem t : True := by trivial'' \<and>
   ustr ''theorem t : True := by trivial'' \<noteq> doc_main_wide \<and>
   map_of (map (\<lambda>kc. (fst kc, content (snd kc)))
      (editable_clauses (snd (load_theorem ascii_alnum run_ok state0 doc_block_wide))))
      (ustr ''tactic_block_0'') = Some (ustr ''trivial'') \<and>
   current_code (snd (edit_clause ascii_alnum run_ok
      (snd (load_theorem ascii_alnum run_ok state0 doc_block_wide))
      (ustr ''tactic_block_0'') (ustr ''trivial''))) =
     ustr ''theorem t : True := by'' @ [10] @ ustr ''  have h : True :='' @ [10] @
     ustr ''    by trivial'' @ [10] @ ustr ''  exact h'' \<and>
   ustr ''theorem t : True := by'' @ [10] @ ustr ''  have h : True :='' @ [10] @
     ustr ''    by trivial'' @ [10] @ ustr ''  exact h'' \<noteq> doc_block_wide"
proof -
  let ?st = "snd (load_theorem ascii_alnum run_ok state0 doc_trailing)"
  let ?sh = "snd (load_theorem ascii_alnum run_ok state0 doc_have_open)"
  let ?ct = "\<lparr>clause_id = ustr ''tactic_0'', start_pos = Position 1 0, end_pos = Position 1 10,
        content = ustr ''trivial'', clause_type = ustr ''tactic''\<rparr>"
  let ?ch = "\<lparr>clause_id = ustr ''have_h'', start_pos = Position 1 22, end_pos = Position 1 21,
        content = ustr ''sorry'', clause_type = ustr ''have''\<rparr>"
  have ct: "map_of (editable_clauses ?st) (ustr ''tactic_0'') = Some ?ct"
    by (simp add: load_state_fields clauses_doc_trailing)
  have vt: "line (start_pos ?ct) < length (split_lines (current_code ?st))"
    by (simp add: load_state_fields lines_doc_trailing)
  have ch: "map_of (editable_clauses ?sh) (ustr ''have_h'') = Some ?ch"
    by (simp add: load_state_fields clauses_doc_have_open)
  have vh: "line (start_pos ?ch) < length (split_lines (current_code ?sh))"
    by (simp add: load_state_fields lines_doc_have_open)
  have et: "edited_code ?st ?ct (ustr ''trivial'') =
      ustr ''theorem t : True := by'' @ [10] @ ustr ''  trivial''"
    by (simp add: edited_code_def load_state_fields lines_doc_trailing edit_line_def ustr_eq_iff)
      (simp add: ustr_def lstrip_def isspace_def)
  have eh: "edited_code ?sh ?ch (ustr ''sorry'') =
      ustr ''theorem t : True := by'' @ [10] @ ustr ''  have h : True := by sorry'' @ [10] @
      ustr ''    trivial'' @ [10] @ ustr ''  exact h''"
    by (simp add: edited_code_def load_state_fields lines_doc_have_open edit_line_def ustr_eq_iff)
      (simp add: ustr_def startswith_def)
  have nt: "ustr ''theorem t : True := by'' @ [10] @ ustr ''  trivial'' \<noteq> doc_trailing"
    by (simp add: doc_trailing_def ustr_def)
  have nh: "ustr ''theorem t : True := by'' @ [10] @ ustr ''  have h : True := by sorry'' @ [10] @
     ustr ''    trivial'' @ [10] @ ustr ''  exact h'' \<noteq> doc_have_open"
    by (simp add: doc_have_open_def ustr_def)
  have kt: "map (content \<circ> snd) (editable_clauses ?st) = [ustr ''trivial'']"
    by (simp add: load_state_fields clauses_doc_trailing)
  have kh: "map_of (map (\<lambda>kc. (fst kc, content (snd kc))) (editable_clauses ?sh))
      (ustr ''have_h'') = Some (ustr ''sorry'')"
    by (simp add: load_state_fields clauses_doc_have_open)
  note rt = edit_clause_known_code [OF ct vt, of ascii_alnum run_ok "ustr ''trivial''"]
  note rh = edit_clause_known_code [OF ch vh, of ascii_alnum run_ok "ustr ''sorry''"]
  let ?sm = "snd (load_theorem ascii_alnum run_ok state0 doc_main_wide)"
  let ?sb = "snd (load_theorem ascii_alnum run_ok state0 doc_block_wide)"
  let ?cm = "\<lparr>clause_id = ustr ''main_proof_0'', start_pos = Position 0 22,
        end_pos = Position 0 31, content = ustr ''trivial'', clause_type = ustr ''main_proof''\<rparr>"
  let ?cb = "\<lparr>clause_id = ustr ''tactic_block_0'', start_pos = Position 2 7,
        end_pos = Position 2 15, content = ustr ''trivial'', clause_type = ustr ''tactic_block''\<rparr>"
  have cm: "map_of (editable_clauses ?sm) (ustr ''main_proof_0'') = Some ?cm"
    by (simp add: load_state_fields clauses_doc_main_wide)
  have vm: "line (start_pos ?cm) < length (split_lines (current_code ?sm))"
    by (simp add: load_state_fields lines_doc_main_wide)
  have cb: "map_of (editable_clauses ?sb) (ustr ''tactic_block_0'') = Some ?cb"
    by (simp add: load_state_fields clauses_doc_block_wide)
  have vb: "line (start_pos ?cb) < length (split_lines (current_code ?sb))"
    by (simp add: load_state_fields lines_doc_block_wide)
  have em: "edited_code ?sm ?cm (ustr ''trivial'') = ustr ''theorem t : True := by trivial''"
    by (simp add: edited_code_def load_state_fields lines_doc_main_wide edit_line_def ustr_eq_iff)
      (simp add: ustr_def startswith_def)
  have eb: "edited_code ?sb ?cb (ustr ''trivial'') =
      ustr ''theorem t : True := by'' @ [10] @ ustr ''  have h : True :='' @ [10] @
      ustr ''    by trivial'' @ [10] @ ustr ''  exact h''"
    by (simp add: edited_code_def load_state_fields lines_doc_block_wide edit_line_def ustr_eq_iff)
      (simp add: ustr_def startswith_def)
  have nm: "ustr ''theorem t : True := by trivial'' \<noteq> doc_main_wide"
    by (simp add: doc_main_wide_def ustr_def)
  have nb: "ustr ''theorem t : True := by'' @ [10] @ ustr ''  have h : True :='' @ [10] @
     ustr ''    by trivial'' @ [10] @ ustr ''  exact h'' \<noteq> doc_block_wide"
    by (simp add: doc_block_wide_def ustr_def)
  have km: "map_of (map (\<lambda>kc. (fst kc, content (snd kc))) (editable_clauses ?sm))
      (ustr ''main_proof_0'') = Some (ustr ''trivial'')"
    by (simp add: load_state_fields clauses_doc_main_wide)
  have kb: "map_of (map (\<lambda>kc. (fst kc, content (snd kc))) (editable_clauses ?sb))
      (ustr ''tactic_block_0'') = Some (ustr ''trivial'')"
    by (simp add: load_state_fields clauses_doc_block_wide)
  note rm = edit_clause_known_code [OF cm vm, of ascii_alnum run_ok "ustr ''trivial''"]
  note rb = edit_clause_known_code [OF cb vb, of ascii_alnum run_ok "ustr ''trivial''"]
  from kt rt [unfolded et] nt kh rh [unfolded eh] nh km rm [unfolded em] nm kb rb [unfolded eb] nb
  show ?thesis
    by (intro conjI)
qed

text \<open>
  C4 fails on the code for a line with two placeholders: the clause \<open>sorry_0\<close> records
  the span of the first one, columns 18 to 23 of line 1, and the edit replaces both.
\<close>

theorem edit_sorry_replaces_both:
  "map_of (editable_clauses (snd (load_theorem ascii_alnum run_ok state0 doc_two_sorries)))
      (ustr ''sorry_0'') =
     Some \<lparr>clause_id = ustr ''sorry_0'', start_pos = Position 1 18, end_pos = Position 1 23,
        content = ustr ''sorry'', clause_type = ustr ''sorry''\<rparr> \<and>
   current_code (snd (edit_clause ascii_alnum run_ok
      (snd (load_theorem ascii_alnum run_ok state0 doc_two_sorries))
      (ustr ''sorry_0'') (ustr ''p''))) =
     ustr ''theorem t (p : P) (q : Q) : And P Q := by'' @ [10] @ ustr ''  exact And.intro p p''"
proof -
  let ?s2 = "snd (load_theorem ascii_alnum run_ok state0 doc_two_sorries)"
  let ?c2 = "\<lparr>clause_id = ustr ''sorry_0'', start_pos = Position 1 18, end_pos = Position 1 23,
        content = ustr ''sorry'', clause_type = ustr ''sorry''\<rparr>"
  have c2: "map_of (editable_clauses ?s2) (ustr ''sorry_0'') = Some ?c2"
    by (simp add: load_state_fields clauses_doc_two_sorries)
  have v2: "line (start_pos ?c2) < length (split_lines (current_code ?s2))"
    by (simp add: load_state_fields lines_doc_two_sorries)
  have e2: "edited_code ?s2 ?c2 (ustr ''p'') =
      ustr ''theorem t (p : P) (q : Q) : And P Q := by'' @ [10] @ ustr ''  exact And.intro p p''"
    by (simp add: edited_code_def load_state_fields lines_doc_two_sorries edit_line_def
        replace_two_sorries)
  from c2 edit_clause_known_code [OF c2 v2, of ascii_alnum run_ok "ustr ''p''", unfolded e2]
  show ?thesis by (intro conjI)
qed

text \<open>
  C8 fails on the code for a \<open>have\<close> line that ends in \<open>by\<close>: line 1 of the document has
  21 characters, and the clause \<open>have_h\<close> records the start column 22 and the end
  column 21.
\<close>

theorem have_clause_span_outside_line:
  "map_of (editable_clauses (snd (load_theorem ascii_alnum run_ok state0 doc_have_open)))
      (ustr ''have_h'') =
     Some \<lparr>clause_id = ustr ''have_h'', start_pos = Position 1 22, end_pos = Position 1 21,
        content = ustr ''sorry'', clause_type = ustr ''have''\<rparr> \<and>
   length (split_lines (current_code (snd (load_theorem ascii_alnum run_ok state0 doc_have_open)))
      ! 1) = 21"
  by (simp add: load_state_fields clauses_doc_have_open lines_doc_have_open) (simp add: ustr_def)

end
